theory Spec2Isabelle
  imports Complex_Main "HOL-Library.Word" "HOL-Library.Multiset"
begin

unbundle bit_operations_syntax

section \<open>Chunked encrypted storage over a messaging backend\<close>

text \<open>
  The storage gateway (class \<open>TelegramStorage\<close>) and the client upload queue
  (\<open>UploadManagerProvider\<close>) are embedded as HOL functions. Every \<open>await\<close> of the
  source is a call into an explicit environment that returns a result and the next
  state of the world; every \<open>throw\<close> is a value \<open>Inl e\<close>.
\<close>

subsection \<open>Bytes, numbers in template strings, errors\<close>

type_synonym buffer = "8 word list"

definition CHUNK_SIZE :: nat where
  "CHUNK_SIZE = 5 * 1024 * 1024"

text \<open>\<open>Buffer.slice(start, end)\<close> for \<open>0 \<le> start\<close>: the bytes from \<open>start\<close> up to, not
  including, \<open>end\<close>, clamped to the buffer.\<close>

definition buffer_slice :: "'a list \<Rightarrow> nat \<Rightarrow> nat \<Rightarrow> 'a list" where
  "buffer_slice buf start end = take (end - start) (drop start buf)"

text \<open>\<open>Math.ceil(a / b)\<close> on two lengths.\<close>

definition ceil_div :: "nat \<Rightarrow> nat \<Rightarrow> nat" where
  "ceil_div a b = nat \<lceil>real a / real b\<rceil>"

text \<open>The decimal digits of a natural number.\<close>

fun decimal :: "nat \<Rightarrow> string" where
  "decimal n = (if n < 10 then [''0123456789'' ! n]
                else decimal (n div 10) @ [''0123456789'' ! (n mod 10)])"

declare decimal.simps [simp del]

text \<open>The errors the gateway throws. \<open>Thrown\<close> is an \<open>Error\<close> raised below the gateway
  (by the cipher, by a backend call) with its message; \<open>AbortError\<close> is an error whose
  \<open>name\<close> is \<open>AbortError\<close>. \<open>FailedToDownloadChunk i e\<close> is the error built by the
  \<open>catch\<close> of \<open>downloadFileByChunks\<close> from the message of \<open>e\<close>, and
  \<open>FailedToAddUploads e\<close> the one built by the \<open>catch\<close> of \<open>addUploads\<close>.\<close>

datatype error =
    Thrown string
  | AbortError string
  | MissingFileId int
  | NoFilePath int
  | IntegrityCheckFailed int
  | FailedToDownloadChunk int error
  | RetryAttemptsExhausted
  | FailedToAddUploads error

subsection \<open>Descriptors and backend values\<close>

record TelegramChunk =
  chunkId :: string
  chunkIndex :: int
  messageId :: int
  encryptedHash :: string
  fileId :: "string option"

record TelegramFile =
  file_id :: string
  file_unique_id :: string
  file_size :: nat
  file_path :: "string option"

record TelegramDocument =
  doc_file_name :: string
  doc_mime_type :: string
  doc_file_id :: string
  doc_file_unique_id :: string
  doc_file_size :: nat

record TelegramMessage =
  message_id :: int
  document :: "TelegramDocument option"

record UploadResult =
  telegramStorageId :: string
  chunks :: "TelegramChunk list"
  totalChunks :: nat

subsection \<open>The crypto library and the backend as environments\<close>

text \<open>
  Node's \<open>crypto\<close> module is not part of the repository; it enters as a record of
  functions. \<open>createCipher('aes-256-cbc', key)\<close> takes the password only: key and IV are
  both derived from it, so \<open>update\<close> followed by \<open>final\<close> is a function of the password
  and the data. \<open>createDecipher\<close> can throw in \<open>final\<close>. \<open>secret\<close> is
  \<open>process.env.NEXTAUTH_SECRET\<close>, which may be undefined.
\<close>

record node_crypto =
  sha256_hex :: "buffer \<Rightarrow> string"
  cipher :: "string \<Rightarrow> buffer \<Rightarrow> buffer"
  decipher :: "string \<Rightarrow> buffer \<Rightarrow> error + buffer"
  number_text :: "int \<Rightarrow> string"
  secret :: "string option"

text \<open>
  How a template string prints a chunk index. An integer between \<open>-2^53\<close> and \<open>2^53\<close>
  is a number of the runtime and prints as its decimal digits. Outside that range the
  digits of the integer are not what the runtime prints (it rounds to a double, and from
  \<open>10^21\<close> on it prints an exponent form such as \<open>1e+21\<close>); there the text is the
  runtime's, \<open>number_text\<close>.
\<close>

definition show_int :: "node_crypto \<Rightarrow> int \<Rightarrow> string" where
  "show_int L i =
     (if - (2 ^ 53) < i \<and> i < 2 ^ 53
      then (if i < 0 then ''-'' @ decimal (nat (- i)) else decimal (nat i))
      else number_text L i)"

text \<open>
  The calls that leave the process, each from a world \<open>'w\<close> to a result and the next
  world: \<open>sendDocument\<close>, \<open>getFile\<close>, \<open>downloadFile\<close> (each already wrapped in its retry
  loop), the abortable \<open>sleep(ms, signal)\<close> and \<open>Math.random()\<close>.
\<close>

record 'w backend =
  sendDocument :: "'w \<Rightarrow> buffer \<Rightarrow> string \<Rightarrow> (error + TelegramMessage) \<times> 'w"
  getFile :: "'w \<Rightarrow> string \<Rightarrow> (error + TelegramFile) \<times> 'w"
  downloadFile :: "'w \<Rightarrow> string \<Rightarrow> (error + buffer) \<times> 'w"
  sleep :: "'w \<Rightarrow> int \<Rightarrow> (error + unit) \<times> 'w"
  random :: "'w \<Rightarrow> real \<times> 'w"

subsection \<open>Crypto unit\<close>

definition utf8 :: "string \<Rightarrow> buffer" where
  "utf8 s = map of_char s"

definition generateEncryptionKey :: "node_crypto \<Rightarrow> string \<Rightarrow> int \<Rightarrow> string" where
  "generateEncryptionKey L fid idx =
     sha256_hex L (utf8 (fid @ ''_'' @ show_int L idx @ ''_'' @
        (case secret L of None \<Rightarrow> ''undefined'' | Some s \<Rightarrow> s)))"

definition encryptChunk :: "node_crypto \<Rightarrow> buffer \<Rightarrow> string \<Rightarrow> buffer" where
  "encryptChunk L chunk key = cipher L key chunk"

definition decryptChunk :: "node_crypto \<Rightarrow> buffer \<Rightarrow> string \<Rightarrow> error + buffer" where
  "decryptChunk L encryptedChunk key = decipher L key encryptedChunk"

subsection \<open>Chunk uploader\<close>

definition uploadChunk ::
  "node_crypto \<Rightarrow> 'w backend \<Rightarrow> string \<Rightarrow> int \<Rightarrow> buffer \<Rightarrow> string \<Rightarrow> 'w
     \<Rightarrow> (error + TelegramChunk) \<times> 'w" where
  "uploadChunk L B fid idx chunk filename w =
     (let encryptionKey = generateEncryptionKey L fid idx;
          encryptedChunk = encryptChunk L chunk encryptionKey;
          hash = sha256_hex L encryptedChunk
      in case sendDocument B w encryptedChunk (fid @ ''_'' @ show_int L idx @ ''_'' @ filename) of
           (Inl e, w') \<Rightarrow> (Inl e, w')
         | (Inr message, w') \<Rightarrow>
             (Inr \<lparr> chunkId = fid @ ''_'' @ show_int L idx,
                    chunkIndex = idx,
                    messageId = message_id message,
                    encryptedHash = hash,
                    fileId = map_option doc_file_id (document message) \<rparr>, w'))"

text \<open>The \<open>for\<close> loop of the multi-chunk branch of \<open>uploadFile\<close>; \<open>acc\<close> is the array
  \<open>chunks\<close> built so far.\<close>

function upload_loop ::
  "node_crypto \<Rightarrow> 'w backend \<Rightarrow> string \<Rightarrow> buffer \<Rightarrow> string \<Rightarrow> nat \<Rightarrow> nat
     \<Rightarrow> TelegramChunk list \<Rightarrow> 'w \<Rightarrow> (error + TelegramChunk list) \<times> 'w" where
  "upload_loop L B fid fileBuffer filename ntotal i acc w =
     (if i < ntotal then
        (let start = i * CHUNK_SIZE;
             end = min (start + CHUNK_SIZE) (length fileBuffer);
             chunk = buffer_slice fileBuffer start end
         in case uploadChunk L B fid (int i) chunk filename w of
              (Inl e, w1) \<Rightarrow> (Inl e, w1)
            | (Inr chunkInfo, w1) \<Rightarrow>
                if int i < int ntotal - 1 then
                  (case random B w1 of (r, w2) \<Rightarrow>
                     (let base = 800;
                          jitter = \<lfloor>r * 300\<rfloor>;
                          stepUp = min 2500 (base + int i * 50)
                      in case sleep B w2 (stepUp + jitter) of
                           (Inl e, w3) \<Rightarrow> (Inl e, w3)
                         | (Inr u, w3) \<Rightarrow>
                             upload_loop L B fid fileBuffer filename ntotal (Suc i)
                               (acc @ [chunkInfo]) w3))
                else upload_loop L B fid fileBuffer filename ntotal (Suc i)
                       (acc @ [chunkInfo]) w1)
      else (Inr acc, w))"
  by pat_completeness auto
termination
  by (relation "measure (\<lambda>(L, B, fid, fileBuffer, filename, ntotal, i, acc, w). ntotal - i)") auto

declare upload_loop.simps [simp del]

text \<open>\<open>uploadFile\<close>; \<open>fid\<close> is the value \<open>crypto.randomUUID()\<close> returned.\<close>

definition uploadFile ::
  "node_crypto \<Rightarrow> 'w backend \<Rightarrow> string \<Rightarrow> buffer \<Rightarrow> string \<Rightarrow> 'w
     \<Rightarrow> (error + UploadResult) \<times> 'w" where
  "uploadFile L B fid fileBuffer filename w =
     (case (if length fileBuffer \<le> CHUNK_SIZE then
              (case uploadChunk L B fid 0 fileBuffer filename w of
                 (Inl e, w') \<Rightarrow> (Inl e, w')
               | (Inr chunkInfo, w') \<Rightarrow> (Inr [chunkInfo], w'))
            else upload_loop L B fid fileBuffer filename
                   (ceil_div (length fileBuffer) CHUNK_SIZE) 0 [] w) of
        (Inl e, w') \<Rightarrow> (Inl e, w')
      | (Inr cs, w') \<Rightarrow>
          (Inr \<lparr> telegramStorageId = fid, chunks = cs, totalChunks = length cs \<rparr>, w'))"

subsection \<open>Chunk downloader and reassembler\<close>

text \<open>The body of the \<open>try\<close> for one descriptor: resolve, download, decrypt, then compare
  the hash of the downloaded bytes with the descriptor's.\<close>

definition download_try ::
  "node_crypto \<Rightarrow> 'w backend \<Rightarrow> string \<Rightarrow> TelegramChunk \<Rightarrow> string \<Rightarrow> 'w
     \<Rightarrow> (error + buffer) \<times> 'w" where
  "download_try L B fid chunk tfid w =
     (case getFile B w tfid of
        (Inl e, w1) \<Rightarrow> (Inl e, w1)
      | (Inr fileInfo, w1) \<Rightarrow>
          (case file_path fileInfo of
             None \<Rightarrow> (Inl (NoFilePath (chunkIndex chunk)), w1)
           | Some p \<Rightarrow>
               if p = [] then (Inl (NoFilePath (chunkIndex chunk)), w1)
               else
                 (case downloadFile B w1 p of
                    (Inl e, w2) \<Rightarrow> (Inl e, w2)
                  | (Inr encryptedChunk, w2) \<Rightarrow>
                      (let encryptionKey = generateEncryptionKey L fid (chunkIndex chunk)
                       in case decryptChunk L encryptedChunk encryptionKey of
                            Inl e \<Rightarrow> (Inl e, w2)
                          | Inr decryptedChunk \<Rightarrow>
                              (let actualHash = sha256_hex L encryptedChunk
                               in if actualHash \<noteq> encryptedHash chunk
                                  then (Inl (IntegrityCheckFailed (chunkIndex chunk)), w2)
                                  else (Inr decryptedChunk, w2))))))"

fun download_loop ::
  "node_crypto \<Rightarrow> 'w backend \<Rightarrow> string \<Rightarrow> TelegramChunk list \<Rightarrow> buffer list \<Rightarrow> 'w
     \<Rightarrow> (error + buffer list) \<times> 'w" where
  "download_loop L B fid [] chunkBuffers w = (Inr chunkBuffers, w)"
| "download_loop L B fid (chunk # rest) chunkBuffers w =
     (case fileId chunk of
        None \<Rightarrow> (Inl (MissingFileId (chunkIndex chunk)), w)
      | Some tfid \<Rightarrow>
          if tfid = [] then (Inl (MissingFileId (chunkIndex chunk)), w)
          else
            (case download_try L B fid chunk tfid w of
               (Inl e, w') \<Rightarrow> (Inl (FailedToDownloadChunk (chunkIndex chunk) e), w')
             | (Inr decryptedChunk, w') \<Rightarrow>
                 download_loop L B fid rest (chunkBuffers @ [decryptedChunk]) w'))"

text \<open>\<open>chunks.sort((a, b) => a.chunkIndex - b.chunkIndex)\<close> is a stable sort on the
  index, as \<open>sort_key\<close> is.\<close>

definition downloadFileByChunks ::
  "node_crypto \<Rightarrow> 'w backend \<Rightarrow> string \<Rightarrow> TelegramChunk list \<Rightarrow> 'w
     \<Rightarrow> (error + buffer) \<times> 'w" where
  "downloadFileByChunks L B fid cs w =
     (case download_loop L B fid (sort_key chunkIndex cs) [] w of
        (Inl e, w') \<Rightarrow> (Inl e, w')
      | (Inr chunkBuffers, w') \<Rightarrow> (Inr (concat chunkBuffers), w'))"

subsection \<open>A backend that stores what it is sent\<close>

text \<open>
  The messaging platform is outside the repository. \<open>telegram_store\<close> is the backend
  that the round trip presupposes: \<open>sendDocument\<close> stores the bytes under a new file id,
  \<open>getFile\<close> resolves a file id to its path, \<open>downloadFile\<close> returns the bytes stored
  under a path. File ids are opaque; \<open>file_id_of\<close> names the n-th document. The list
  \<open>filed\<close> may hold anything, also bytes altered after they were sent.
\<close>

record store =
  next_id :: nat
  filed :: "(string \<times> string \<times> buffer) list"

definition file_id_of :: "nat \<Rightarrow> string" where
  "file_id_of n = ''doc'' @ replicate n (CHR ''+'')"

definition file_path_of :: "nat \<Rightarrow> string" where
  "file_path_of n = ''documents/'' @ file_id_of n"

definition lookup_id :: "store \<Rightarrow> string \<Rightarrow> (string \<times> string \<times> buffer) option" where
  "lookup_id w t = find (\<lambda>(f, p, b). f = t) (filed w)"

definition lookup_path :: "store \<Rightarrow> string \<Rightarrow> (string \<times> string \<times> buffer) option" where
  "lookup_path w q = find (\<lambda>(f, p, b). p = q) (filed w)"

definition telegram_store :: "store backend" where
  "telegram_store =
     \<lparr> sendDocument = (\<lambda>w buf name.
         (Inr \<lparr> message_id = int (next_id w),
                document = Some \<lparr> doc_file_name = name,
                                  doc_mime_type = ''application/octet-stream'',
                                  doc_file_id = file_id_of (next_id w),
                                  doc_file_unique_id = file_id_of (next_id w),
                                  doc_file_size = length buf \<rparr> \<rparr>,
          w\<lparr> next_id := Suc (next_id w),
             filed := (file_id_of (next_id w), file_path_of (next_id w), buf) # filed w \<rparr>)),
       getFile = (\<lambda>w t.
         case lookup_id w t of
           None \<Rightarrow> (Inl (Thrown ''Failed to get file info: Bad Request: invalid file_id''), w)
         | Some (f, p, b) \<Rightarrow>
             (Inr \<lparr> file_id = f, file_unique_id = f, file_size = length b,
                    file_path = Some p \<rparr>, w)),
       downloadFile = (\<lambda>w q.
         case lookup_path w q of
           None \<Rightarrow> (Inl (Thrown ''Failed to download file from Telegram: Not Found''), w)
         | Some (f, p, b) \<Rightarrow> (Inr b, w)),
       sleep = (\<lambda>w ms. (Inr (), w)),
       random = (\<lambda>w. (0, w)) \<rparr>"

text \<open>The bytes a download of file id \<open>t\<close> receives from the store.\<close>

definition stored_bytes :: "store \<Rightarrow> string \<Rightarrow> buffer option" where
  "stored_bytes w t =
     (case lookup_id w t of
        None \<Rightarrow> None
      | Some (f, p, b) \<Rightarrow>
          if p = [] then None
          else (case lookup_path w p of None \<Rightarrow> None | Some (f', p', b') \<Rightarrow> Some b'))"

text \<open>
  A small instance of the crypto interface, to run the definitions on concrete input:
  the cipher adds the length of the password to every byte and appends one padding byte
  \<open>1\<close>; the decipher throws unless that padding byte is there; the digest prints the
  bytes in hexadecimal; no chunk index of the examples is outside the range of the
  decimal digits.
\<close>

definition hex_byte :: "8 word \<Rightarrow> string" where
  "hex_byte b = [''0123456789abcdef'' ! (unat b div 16), ''0123456789abcdef'' ! (unat b mod 16)]"

definition small_crypto :: node_crypto where
  "small_crypto =
     \<lparr> sha256_hex = (\<lambda>b. concat (map hex_byte b)),
       cipher = (\<lambda>key b. map (\<lambda>x. x + of_nat (length key)) b @ [1]),
       decipher = (\<lambda>key b.
          if b = [] \<or> last b \<noteq> 1 then Inl (Thrown ''bad decrypt'')
          else Inr (map (\<lambda>x. x - of_nat (length key)) (butlast b))),
       number_text = (\<lambda>i. ''NaN''),
       secret = Some ''s3cret'' \<rparr>"

text \<open>A store holding the one chunk of the buffer \<open>[1, 2, 3]\<close> with its padding byte
  altered, another with a data byte altered, and the descriptor of that chunk.\<close>

definition altered_store :: store where
  "altered_store = \<lparr> next_id = 1, filed = [(''doc'', ''documents/doc'', [27, 28, 29, 0])] \<rparr>"

definition garbled_store :: store where
  "garbled_store = \<lparr> next_id = 1, filed = [(''doc'', ''documents/doc'', [27, 28, 30, 1])] \<rparr>"

definition sole_chunk :: TelegramChunk where
  "sole_chunk = \<lparr> chunkId = ''uuid_0'', chunkIndex = 0, messageId = 0,
      encryptedHash = ''1b1c1d01'', fileId = Some ''doc'' \<rparr>"

text \<open>Chunk \<open>i\<close> of a buffer, the bytes sent for it, the store entry and the descriptor
  that result when the store numbers its documents from \<open>base\<close>: the values in which the
  results of \<open>uploadFile\<close> are stated.\<close>

definition chunk_bytes :: "buffer \<Rightarrow> nat \<Rightarrow> buffer" where
  "chunk_bytes buf i =
     buffer_slice buf (i * CHUNK_SIZE) (min (i * CHUNK_SIZE + CHUNK_SIZE) (length buf))"

definition sent_bytes :: "node_crypto \<Rightarrow> string \<Rightarrow> buffer \<Rightarrow> nat \<Rightarrow> buffer" where
  "sent_bytes L fid buf i =
     encryptChunk L (chunk_bytes buf i) (generateEncryptionKey L fid (int i))"

definition store_entry ::
  "node_crypto \<Rightarrow> string \<Rightarrow> buffer \<Rightarrow> nat \<Rightarrow> nat \<Rightarrow> string \<times> string \<times> buffer" where
  "store_entry L fid buf base i =
     (file_id_of (base + i), file_path_of (base + i), sent_bytes L fid buf i)"

definition descriptor ::
  "node_crypto \<Rightarrow> string \<Rightarrow> buffer \<Rightarrow> nat \<Rightarrow> nat \<Rightarrow> TelegramChunk" where
  "descriptor L fid buf base i =
     \<lparr> chunkId = fid @ ''_'' @ show_int L (int i), chunkIndex = int i,
       messageId = int (base + i),
       encryptedHash = sha256_hex L (sent_bytes L fid buf i),
       fileId = Some (file_id_of (base + i)) \<rparr>"

subsection \<open>AES-256-CBC as the runtime's \<open>createCipher\<close> computes it\<close>

text \<open>
  \<open>crypto.createCipher('aes-256-cbc', password)\<close> is OpenSSL's AES-256 in CBC mode with
  PKCS#7 padding, the key and the IV derived from the password by \<open>EVP_BytesToKey\<close> (MD5,
  one round, no salt). The block cipher is written out after FIPS 197, on a state of 16
  bytes held column by column; the digest MD5 stays a parameter. Reading past the end of
  a byte list gives 0, so that every function is total; on blocks of 16 bytes and an
  expanded key of 240 bytes no such read happens.
\<close>

definition byte_at :: "buffer \<Rightarrow> nat \<Rightarrow> 8 word" where
  "byte_at b i = (if i < length b then b ! i else 0)"

definition sbox_table :: buffer where
  "sbox_table = [
      0x63, 0x7c, 0x77, 0x7b, 0xf2, 0x6b, 0x6f, 0xc5, 0x30, 0x01, 0x67, 0x2b, 0xfe, 0xd7, 0xab, 0x76,
      0xca, 0x82, 0xc9, 0x7d, 0xfa, 0x59, 0x47, 0xf0, 0xad, 0xd4, 0xa2, 0xaf, 0x9c, 0xa4, 0x72, 0xc0,
      0xb7, 0xfd, 0x93, 0x26, 0x36, 0x3f, 0xf7, 0xcc, 0x34, 0xa5, 0xe5, 0xf1, 0x71, 0xd8, 0x31, 0x15,
      0x04, 0xc7, 0x23, 0xc3, 0x18, 0x96, 0x05, 0x9a, 0x07, 0x12, 0x80, 0xe2, 0xeb, 0x27, 0xb2, 0x75,
      0x09, 0x83, 0x2c, 0x1a, 0x1b, 0x6e, 0x5a, 0xa0, 0x52, 0x3b, 0xd6, 0xb3, 0x29, 0xe3, 0x2f, 0x84,
      0x53, 0xd1, 0x00, 0xed, 0x20, 0xfc, 0xb1, 0x5b, 0x6a, 0xcb, 0xbe, 0x39, 0x4a, 0x4c, 0x58, 0xcf,
      0xd0, 0xef, 0xaa, 0xfb, 0x43, 0x4d, 0x33, 0x85, 0x45, 0xf9, 0x02, 0x7f, 0x50, 0x3c, 0x9f, 0xa8,
      0x51, 0xa3, 0x40, 0x8f, 0x92, 0x9d, 0x38, 0xf5, 0xbc, 0xb6, 0xda, 0x21, 0x10, 0xff, 0xf3, 0xd2,
      0xcd, 0x0c, 0x13, 0xec, 0x5f, 0x97, 0x44, 0x17, 0xc4, 0xa7, 0x7e, 0x3d, 0x64, 0x5d, 0x19, 0x73,
      0x60, 0x81, 0x4f, 0xdc, 0x22, 0x2a, 0x90, 0x88, 0x46, 0xee, 0xb8, 0x14, 0xde, 0x5e, 0x0b, 0xdb,
      0xe0, 0x32, 0x3a, 0x0a, 0x49, 0x06, 0x24, 0x5c, 0xc2, 0xd3, 0xac, 0x62, 0x91, 0x95, 0xe4, 0x79,
      0xe7, 0xc8, 0x37, 0x6d, 0x8d, 0xd5, 0x4e, 0xa9, 0x6c, 0x56, 0xf4, 0xea, 0x65, 0x7a, 0xae, 0x08,
      0xba, 0x78, 0x25, 0x2e, 0x1c, 0xa6, 0xb4, 0xc6, 0xe8, 0xdd, 0x74, 0x1f, 0x4b, 0xbd, 0x8b, 0x8a,
      0x70, 0x3e, 0xb5, 0x66, 0x48, 0x03, 0xf6, 0x0e, 0x61, 0x35, 0x57, 0xb9, 0x86, 0xc1, 0x1d, 0x9e,
      0xe1, 0xf8, 0x98, 0x11, 0x69, 0xd9, 0x8e, 0x94, 0x9b, 0x1e, 0x87, 0xe9, 0xce, 0x55, 0x28, 0xdf,
      0x8c, 0xa1, 0x89, 0x0d, 0xbf, 0xe6, 0x42, 0x68, 0x41, 0x99, 0x2d, 0x0f, 0xb0, 0x54, 0xbb, 0x16]"

definition inv_sbox_table :: buffer where
  "inv_sbox_table = [
      0x52, 0x09, 0x6a, 0xd5, 0x30, 0x36, 0xa5, 0x38, 0xbf, 0x40, 0xa3, 0x9e, 0x81, 0xf3, 0xd7, 0xfb,
      0x7c, 0xe3, 0x39, 0x82, 0x9b, 0x2f, 0xff, 0x87, 0x34, 0x8e, 0x43, 0x44, 0xc4, 0xde, 0xe9, 0xcb,
      0x54, 0x7b, 0x94, 0x32, 0xa6, 0xc2, 0x23, 0x3d, 0xee, 0x4c, 0x95, 0x0b, 0x42, 0xfa, 0xc3, 0x4e,
      0x08, 0x2e, 0xa1, 0x66, 0x28, 0xd9, 0x24, 0xb2, 0x76, 0x5b, 0xa2, 0x49, 0x6d, 0x8b, 0xd1, 0x25,
      0x72, 0xf8, 0xf6, 0x64, 0x86, 0x68, 0x98, 0x16, 0xd4, 0xa4, 0x5c, 0xcc, 0x5d, 0x65, 0xb6, 0x92,
      0x6c, 0x70, 0x48, 0x50, 0xfd, 0xed, 0xb9, 0xda, 0x5e, 0x15, 0x46, 0x57, 0xa7, 0x8d, 0x9d, 0x84,
      0x90, 0xd8, 0xab, 0x00, 0x8c, 0xbc, 0xd3, 0x0a, 0xf7, 0xe4, 0x58, 0x05, 0xb8, 0xb3, 0x45, 0x06,
      0xd0, 0x2c, 0x1e, 0x8f, 0xca, 0x3f, 0x0f, 0x02, 0xc1, 0xaf, 0xbd, 0x03, 0x01, 0x13, 0x8a, 0x6b,
      0x3a, 0x91, 0x11, 0x41, 0x4f, 0x67, 0xdc, 0xea, 0x97, 0xf2, 0xcf, 0xce, 0xf0, 0xb4, 0xe6, 0x73,
      0x96, 0xac, 0x74, 0x22, 0xe7, 0xad, 0x35, 0x85, 0xe2, 0xf9, 0x37, 0xe8, 0x1c, 0x75, 0xdf, 0x6e,
      0x47, 0xf1, 0x1a, 0x71, 0x1d, 0x29, 0xc5, 0x89, 0x6f, 0xb7, 0x62, 0x0e, 0xaa, 0x18, 0xbe, 0x1b,
      0xfc, 0x56, 0x3e, 0x4b, 0xc6, 0xd2, 0x79, 0x20, 0x9a, 0xdb, 0xc0, 0xfe, 0x78, 0xcd, 0x5a, 0xf4,
      0x1f, 0xdd, 0xa8, 0x33, 0x88, 0x07, 0xc7, 0x31, 0xb1, 0x12, 0x10, 0x59, 0x27, 0x80, 0xec, 0x5f,
      0x60, 0x51, 0x7f, 0xa9, 0x19, 0xb5, 0x4a, 0x0d, 0x2d, 0xe5, 0x7a, 0x9f, 0x93, 0xc9, 0x9c, 0xef,
      0xa0, 0xe0, 0x3b, 0x4d, 0xae, 0x2a, 0xf5, 0xb0, 0xc8, 0xeb, 0xbb, 0x3c, 0x83, 0x53, 0x99, 0x61,
      0x17, 0x2b, 0x04, 0x7e, 0xba, 0x77, 0xd6, 0x26, 0xe1, 0x69, 0x14, 0x63, 0x55, 0x21, 0x0c, 0x7d]"

definition sub_byte :: "8 word \<Rightarrow> 8 word" where
  "sub_byte b = byte_at sbox_table (unat b)"

definition inv_sub_byte :: "8 word \<Rightarrow> 8 word" where
  "inv_sub_byte b = byte_at inv_sbox_table (unat b)"

definition SubBytes :: "buffer \<Rightarrow> buffer" where
  "SubBytes st = map sub_byte st"

definition InvSubBytes :: "buffer \<Rightarrow> buffer" where
  "InvSubBytes st = map inv_sub_byte st"

text \<open>Row \<open>r\<close> of the state is rotated by \<open>r\<close> columns; byte \<open>r + 4 c\<close> is row \<open>r\<close> of
  column \<open>c\<close>.\<close>

definition ShiftRows :: "buffer \<Rightarrow> buffer" where
  "ShiftRows st = map (byte_at st) [0, 5, 10, 15, 4, 9, 14, 3, 8, 13, 2, 7, 12, 1, 6, 11]"

definition InvShiftRows :: "buffer \<Rightarrow> buffer" where
  "InvShiftRows st = map (byte_at st) [0, 13, 10, 7, 4, 1, 14, 11, 8, 5, 2, 15, 12, 9, 6, 3]"

text \<open>Multiplication by \<open>x\<close> in the field of 256 elements, modulo
  \<open>x^8 + x^4 + x^3 + x + 1\<close>, and by the constants of the two column mixes.\<close>

definition xtime :: "8 word \<Rightarrow> 8 word" where
  "xtime b = (if bit b 7 then push_bit 1 b XOR 0x1b else push_bit 1 b)"

definition mul3 :: "8 word \<Rightarrow> 8 word" where
  "mul3 b = xtime b XOR b"

definition mul9 :: "8 word \<Rightarrow> 8 word" where
  "mul9 b = xtime (xtime (xtime b)) XOR b"

definition mul11 :: "8 word \<Rightarrow> 8 word" where
  "mul11 b = xtime (xtime (xtime b)) XOR xtime b XOR b"

definition mul13 :: "8 word \<Rightarrow> 8 word" where
  "mul13 b = xtime (xtime (xtime b)) XOR xtime (xtime b) XOR b"

definition mul14 :: "8 word \<Rightarrow> 8 word" where
  "mul14 b = xtime (xtime (xtime b)) XOR xtime (xtime b) XOR xtime b"

definition mix_column :: "8 word \<Rightarrow> 8 word \<Rightarrow> 8 word \<Rightarrow> 8 word \<Rightarrow> buffer" where
  "mix_column a0 a1 a2 a3 =
     [xtime a0 XOR mul3 a1 XOR a2 XOR a3,
      a0 XOR xtime a1 XOR mul3 a2 XOR a3,
      a0 XOR a1 XOR xtime a2 XOR mul3 a3,
      mul3 a0 XOR a1 XOR a2 XOR xtime a3]"

definition inv_mix_column :: "8 word \<Rightarrow> 8 word \<Rightarrow> 8 word \<Rightarrow> 8 word \<Rightarrow> buffer" where
  "inv_mix_column a0 a1 a2 a3 =
     [mul14 a0 XOR mul11 a1 XOR mul13 a2 XOR mul9 a3,
      mul9 a0 XOR mul14 a1 XOR mul11 a2 XOR mul13 a3,
      mul13 a0 XOR mul9 a1 XOR mul14 a2 XOR mul11 a3,
      mul11 a0 XOR mul13 a1 XOR mul9 a2 XOR mul14 a3]"

definition columns :: "(8 word \<Rightarrow> 8 word \<Rightarrow> 8 word \<Rightarrow> 8 word \<Rightarrow> buffer) \<Rightarrow> buffer \<Rightarrow> buffer" where
  "columns f st =
     concat (map (\<lambda>c. f (byte_at st (4 * c)) (byte_at st (4 * c + 1))
                        (byte_at st (4 * c + 2)) (byte_at st (4 * c + 3))) [0, 1, 2, 3])"

definition MixColumns :: "buffer \<Rightarrow> buffer" where
  "MixColumns st = columns mix_column st"

definition InvMixColumns :: "buffer \<Rightarrow> buffer" where
  "InvMixColumns st = columns inv_mix_column st"

text \<open>Round key \<open>r\<close> is bytes \<open>16 r\<close> to \<open>16 r + 15\<close> of the expanded key \<open>w\<close>.\<close>

definition AddRoundKey :: "buffer \<Rightarrow> nat \<Rightarrow> buffer \<Rightarrow> buffer" where
  "AddRoundKey w r st =
     map (\<lambda>i. byte_at st i XOR byte_at w (16 * r + i))
       [0, 1, 2, 3, 4, 5, 6, 7, 8, 9, 10, 11, 12, 13, 14, 15]"

text \<open>The key expansion for a key of 8 words: word \<open>i\<close> of the schedule from words
  \<open>i - 1\<close> and \<open>i - 8\<close>, for \<open>i\<close> from 8 to 59. A key that is not 32 bytes long is cut or
  filled with zeros.\<close>

definition Rcon :: "nat \<Rightarrow> 8 word" where
  "Rcon i = byte_at [0, 1, 2, 4, 8, 16, 32, 64] i"

definition next_word :: "nat \<Rightarrow> buffer \<Rightarrow> buffer" where
  "next_word i w =
     (let t0 = byte_at w (4 * i - 4); t1 = byte_at w (4 * i - 3);
          t2 = byte_at w (4 * i - 2); t3 = byte_at w (4 * i - 1);
          t = (if i mod 8 = 0
               then [sub_byte t1 XOR Rcon (i div 8), sub_byte t2, sub_byte t3, sub_byte t0]
               else if i mod 8 = 4
               then [sub_byte t0, sub_byte t1, sub_byte t2, sub_byte t3]
               else [t0, t1, t2, t3])
      in map (\<lambda>j. byte_at w (4 * (i - 8) + j) XOR byte_at t j) [0, 1, 2, 3])"

definition KeyExpansion :: "buffer \<Rightarrow> buffer" where
  "KeyExpansion key =
     fold (\<lambda>i w. w @ next_word i w) [8..<60] (take 32 key @ replicate (32 - length key) 0)"

definition aes_round :: "buffer \<Rightarrow> nat \<Rightarrow> buffer \<Rightarrow> buffer" where
  "aes_round w r st = AddRoundKey w r (MixColumns (ShiftRows (SubBytes st)))"

definition inv_aes_round :: "buffer \<Rightarrow> nat \<Rightarrow> buffer \<Rightarrow> buffer" where
  "inv_aes_round w r st = InvMixColumns (AddRoundKey w r (InvSubBytes (InvShiftRows st)))"

definition Cipher :: "buffer \<Rightarrow> buffer \<Rightarrow> buffer" where
  "Cipher w block =
     AddRoundKey w 14 (ShiftRows (SubBytes
       (fold (aes_round w) [1..<14] (AddRoundKey w 0 block))))"

definition InvCipher :: "buffer \<Rightarrow> buffer \<Rightarrow> buffer" where
  "InvCipher w block =
     AddRoundKey w 0 (InvSubBytes (InvShiftRows
       (fold (inv_aes_round w) (rev [1..<14]) (AddRoundKey w 14 block))))"

text \<open>Cipher block chaining over the blocks of 16 bytes of the padded data.\<close>

definition xor_block :: "buffer \<Rightarrow> buffer \<Rightarrow> buffer" where
  "xor_block x y =
     map (\<lambda>i. byte_at x i XOR byte_at y i)
       [0, 1, 2, 3, 4, 5, 6, 7, 8, 9, 10, 11, 12, 13, 14, 15]"

definition blocks :: "buffer \<Rightarrow> buffer list" where
  "blocks b = map (\<lambda>i. take 16 (drop (16 * i) b)) [0..<length b div 16]"

fun cbc_encrypt :: "buffer \<Rightarrow> buffer \<Rightarrow> buffer list \<Rightarrow> buffer list" where
  "cbc_encrypt w prev [] = []"
| "cbc_encrypt w prev (p # ps) =
     (let c = Cipher w (xor_block p prev) in c # cbc_encrypt w c ps)"

fun cbc_decrypt :: "buffer \<Rightarrow> buffer \<Rightarrow> buffer list \<Rightarrow> buffer list" where
  "cbc_decrypt w prev [] = []"
| "cbc_decrypt w prev (c # cs) = xor_block (InvCipher w c) prev # cbc_decrypt w c cs"

text \<open>PKCS#7: \<open>n\<close> bytes of value \<open>n\<close> fill the data up to the next multiple of 16, a
  whole block when it is one already. \<open>final\<close> of the decipher fails with
  \<open>bad decrypt\<close> when the last block does not end in such a padding.\<close>

definition pkcs7_pad :: "buffer \<Rightarrow> buffer" where
  "pkcs7_pad p = p @ replicate (16 - length p mod 16) (of_nat (16 - length p mod 16))"

definition pkcs7_unpad :: "buffer \<Rightarrow> error + buffer" where
  "pkcs7_unpad b =
     (let n = unat (last b)
      in if b = [] \<or> n = 0 \<or> 16 < n \<or> length b < n then Inl (Thrown ''bad decrypt'')
         else if list_all (\<lambda>x. x = last b) (drop (length b - n) b)
         then Inr (take (length b - n) b)
         else Inl (Thrown ''bad decrypt''))"

text \<open>\<open>EVP_BytesToKey\<close> with MD5, one iteration and no salt, for a key of 32 and an IV of
  16 bytes: the digests \<open>D1 = MD5 (password)\<close>, \<open>D2 = MD5 (D1 || password)\<close>,
  \<open>D3 = MD5 (D2 || password)\<close> are laid end to end.\<close>

definition EVP_BytesToKey :: "(buffer \<Rightarrow> buffer) \<Rightarrow> buffer \<Rightarrow> buffer \<times> buffer" where
  "EVP_BytesToKey md5 password =
     (let d1 = md5 password; d2 = md5 (d1 @ password); d3 = md5 (d2 @ password)
      in (take 32 (d1 @ d2 @ d3), take 16 (drop 32 (d1 @ d2 @ d3))))"

text \<open>\<open>Buffer.concat([cipher.update(data), cipher.final()])\<close> and the same for the
  decipher, whose \<open>final\<close> throws \<open>wrong final block length\<close> when the data is empty or
  not a whole number of blocks. The messages are OpenSSL's reasons, without the error
  code that precedes them.\<close>

definition createCipher_aes_256_cbc :: "(buffer \<Rightarrow> buffer) \<Rightarrow> string \<Rightarrow> buffer \<Rightarrow> buffer" where
  "createCipher_aes_256_cbc md5 password data =
     (case EVP_BytesToKey md5 (utf8 password) of
        (key, iv) \<Rightarrow> concat (cbc_encrypt (KeyExpansion key) iv (blocks (pkcs7_pad data))))"

definition createDecipher_aes_256_cbc ::
  "(buffer \<Rightarrow> buffer) \<Rightarrow> string \<Rightarrow> buffer \<Rightarrow> error + buffer" where
  "createDecipher_aes_256_cbc md5 password data =
     (case EVP_BytesToKey md5 (utf8 password) of
        (key, iv) \<Rightarrow>
          if data = [] \<or> length data mod 16 \<noteq> 0
          then Inl (Thrown ''wrong final block length'')
          else pkcs7_unpad (concat (cbc_decrypt (KeyExpansion key) iv (blocks data))))"

text \<open>The crypto module of the runtime: the two digests, the printing of large numbers
  and the secret stay parameters, the cipher is the one above.\<close>

definition node_openssl ::
  "(buffer \<Rightarrow> string) \<Rightarrow> (buffer \<Rightarrow> buffer) \<Rightarrow> (int \<Rightarrow> string) \<Rightarrow> string option
     \<Rightarrow> node_crypto" where
  "node_openssl sha256 md5 num env_secret =
     \<lparr> sha256_hex = sha256,
       cipher = createCipher_aes_256_cbc md5,
       decipher = createDecipher_aes_256_cbc md5,
       number_text = num,
       secret = env_secret \<rparr>"

subsection \<open>Resilient transport\<close>

text \<open>
  \<open>fetchWithRetry\<close> runs against a clock in milliseconds. The network is a script: what
  the request of attempt \<open>k\<close> meets and after how long, and the values
  \<open>Math.floor(Math.random() * 250)\<close> drawn in attempt \<open>k\<close> on the two backoff paths.
  The caller's \<open>AbortSignal\<close> is absent, or present and aborted at some time or never.
  A timer and an abort due in the same millisecond: the timer runs first; a response and
  a timeout or abort due in the same millisecond: the response is taken.
\<close>

datatype retry_after = Absent | Unparsed | Seconds nat

record Response =
  status :: int
  retryAfter :: retry_after
  statusText :: string
  body :: buffer

definition ok :: "Response \<Rightarrow> bool" where
  "ok res = (200 \<le> status res \<and> status res \<le> 299)"

datatype met = Settles nat Response | Fails nat error

record network =
  outcome :: "nat \<Rightarrow> met"
  jitter_try :: "nat \<Rightarrow> nat"
  jitter_catch :: "nat \<Rightarrow> nat"

datatype abort_signal = NoSignal | Signal "nat option"

fun aborted :: "abort_signal \<Rightarrow> nat \<Rightarrow> bool" where
  "aborted NoSignal t = False"
| "aborted (Signal None) t = False"
| "aborted (Signal (Some a)) t = (a \<le> t)"

datatype event = Request nat nat | Sleep nat nat nat

text \<open>\<open>sleep(ms, signal)\<close> called at \<open>now\<close>: how the promise settles, and when.\<close>

definition sleep_at :: "abort_signal \<Rightarrow> nat \<Rightarrow> nat \<Rightarrow> (error + unit) \<times> nat" where
  "sleep_at sig now ms =
     (case sig of
        Signal (Some a) \<Rightarrow>
          if a \<le> now then (Inl (AbortError ''Aborted''), now)
          else if a < now + ms then (Inl (AbortError ''Aborted''), a)
          else (Inr (), now + ms)
      | _ \<Rightarrow> (Inr (), now + ms))"

text \<open>\<open>fetch(url, {signal: controller.signal})\<close> of attempt \<open>k\<close> called at \<open>now\<close>, with the
  per-attempt controller aborted by the timeout and by the caller's signal. With the
  controller already aborted no request is issued.\<close>

definition fetch_at ::
  "network \<Rightarrow> abort_signal \<Rightarrow> nat \<Rightarrow> nat \<Rightarrow> nat \<Rightarrow> (error + Response) \<times> nat" where
  "fetch_at N sig timeoutMs k now =
     (if aborted sig now then (Inl (AbortError ''This operation was aborted''), now)
      else
        (let cut = (case sig of
                      Signal (Some a) \<Rightarrow> min (now + timeoutMs) a
                    | _ \<Rightarrow> now + timeoutMs)
         in case outcome N k of
              Settles d res \<Rightarrow>
                if now + d \<le> cut then (Inr res, now + d)
                else (Inl (AbortError ''This operation was aborted''), cut)
            | Fails d err \<Rightarrow>
                if now + d \<le> cut then (Inl err, now + d)
                else (Inl (AbortError ''This operation was aborted''), cut)))"

definition backoff :: "nat \<Rightarrow> nat \<Rightarrow> nat \<Rightarrow> nat" where
  "backoff baseDelayMs attempt jit = baseDelayMs * 2 ^ attempt + jit"

datatype step = Continue nat "event list" | Finished "error + Response" nat "event list"

text \<open>The \<open>catch\<close> block of one iteration, entered at time \<open>t\<close> with \<open>err\<close>.\<close>

definition catch_block ::
  "network \<Rightarrow> abort_signal \<Rightarrow> nat \<Rightarrow> nat \<Rightarrow> nat \<Rightarrow> error \<Rightarrow> nat \<Rightarrow> event list \<Rightarrow> step" where
  "catch_block N sig retries baseDelayMs attempt err t tr =
     (if aborted sig t then Finished (Inl err) t tr
      else if attempt = retries then Finished (Inl err) t tr
      else
        (let delay = backoff baseDelayMs attempt (jitter_catch N attempt);
             ms = min delay 15000
         in case sleep_at sig t ms of
              (Inl e, t') \<Rightarrow> Finished (Inl e) t' (tr @ [Sleep t ms t'])
            | (Inr u, t') \<Rightarrow> Continue t' (tr @ [Sleep t ms t'])))"

text \<open>One iteration of the \<open>for\<close> loop: the \<open>try\<close> block, falling into \<open>catch_block\<close>
  when \<open>fetch\<close> or the backoff \<open>sleep\<close> rejects.\<close>

definition one_attempt ::
  "network \<Rightarrow> abort_signal \<Rightarrow> nat \<Rightarrow> int list \<Rightarrow> nat \<Rightarrow> nat \<Rightarrow> nat \<Rightarrow> nat
     \<Rightarrow> event list \<Rightarrow> step" where
  "one_attempt N sig timeoutMs retryStatuses retries baseDelayMs attempt now tr =
     (let tr1 = (if aborted sig now then tr else tr @ [Request attempt now])
      in case fetch_at N sig timeoutMs attempt now of
           (Inl err, t) \<Rightarrow> catch_block N sig retries baseDelayMs attempt err t tr1
         | (Inr res, t) \<Rightarrow>
             if ok res then Finished (Inr res) t tr1
             else if status res \<notin> set retryStatuses \<or> attempt = retries
               then Finished (Inr res) t tr1
             else
               (let delay0 = backoff baseDelayMs attempt (jitter_try N attempt);
                    delay = (case retryAfter res of
                               Seconds v \<Rightarrow> max delay0 (v * 1000)
                             | _ \<Rightarrow> delay0);
                    ms = min delay 15000
                in case sleep_at sig t ms of
                     (Inl err, t') \<Rightarrow>
                       catch_block N sig retries baseDelayMs attempt err t' (tr1 @ [Sleep t ms t'])
                   | (Inr u, t') \<Rightarrow> Continue t' (tr1 @ [Sleep t ms t'])))"

function retry_loop ::
  "network \<Rightarrow> abort_signal \<Rightarrow> nat \<Rightarrow> int list \<Rightarrow> nat \<Rightarrow> nat \<Rightarrow> nat \<Rightarrow> nat
     \<Rightarrow> event list \<Rightarrow> (error + Response) \<times> nat \<times> event list" where
  "retry_loop N sig timeoutMs retryStatuses retries baseDelayMs attempt now tr =
     (if attempt \<le> retries then
        (case one_attempt N sig timeoutMs retryStatuses retries baseDelayMs attempt now tr of
           Finished r t tr' \<Rightarrow> (r, t, tr')
         | Continue t tr' \<Rightarrow>
             retry_loop N sig timeoutMs retryStatuses retries baseDelayMs (Suc attempt) t tr')
      else (Inl RetryAttemptsExhausted, now, tr))"
  by pat_completeness auto
termination
  by (relation "measure (\<lambda>(N, sig, timeoutMs, retryStatuses, retries, baseDelayMs, attempt, now, tr).
        Suc retries - attempt)") auto

declare retry_loop.simps [simp del]

definition fetchWithRetry ::
  "network \<Rightarrow> abort_signal \<Rightarrow> nat \<Rightarrow> int list \<Rightarrow> nat \<Rightarrow> nat \<Rightarrow> nat
     \<Rightarrow> (error + Response) \<times> nat \<times> event list" where
  "fetchWithRetry N sig timeoutMs retryStatuses retries baseDelayMs now =
     retry_loop N sig timeoutMs retryStatuses retries baseDelayMs 0 now []"

text \<open>The default arguments of \<open>fetchWithRetry\<close>.\<close>

definition default_retryStatuses :: "int list" where
  "default_retryStatuses = [429, 500, 502, 503, 504]"

definition default_retries :: nat where
  "default_retries = 4"

definition default_baseDelayMs :: nat where
  "default_baseDelayMs = 1000"

text \<open>The method \<open>downloadFile\<close> over \<open>fetchWithRetry\<close>: no signal, 60 s per attempt, a
  non-OK response thrown as an error with the response text, or the status text when the
  text is empty.\<close>

definition response_text :: "Response \<Rightarrow> string" where
  "response_text res = map (\<lambda>b. char_of (unat b)) (body res)"

definition downloadFile_request ::
  "network \<Rightarrow> nat \<Rightarrow> (error + buffer) \<times> nat \<times> event list" where
  "downloadFile_request N now =
     (case fetchWithRetry N NoSignal 60000 default_retryStatuses default_retries
             default_baseDelayMs now of
        (Inl e, t, tr) \<Rightarrow> (Inl e, t, tr)
      | (Inr response, t, tr) \<Rightarrow>
          if \<not> ok response then
            (Inl (Thrown (''Failed to download file from Telegram: '' @
                    (if response_text response = [] then statusText response
                     else response_text response))), t, tr)
          else (Inr (body response), t, tr))"

text \<open>After how long a request settles.\<close>

fun duration :: "met \<Rightarrow> nat" where
  "duration (Settles d res) = d"
| "duration (Fails d err) = d"

text \<open>
  The error expected of a call that the caller's abort at time \<open>a\<close> ends, read off the
  last event of its trace. The last event is a sleep: \<open>sleep\<close> rejected with
  \<open>AbortError 'Aborted'\<close> when the abort came before its end, and otherwise the sleep
  ended at \<open>a\<close> and the next \<open>fetch\<close> found its controller aborted. The last event is a
  request: \<open>fetch\<close> rejected with its \<open>AbortError\<close>, unless the request failed by
  itself in the millisecond of the abort.
\<close>

fun thrown_on_abort :: "network \<Rightarrow> nat \<Rightarrow> event \<Rightarrow> error" where
  "thrown_on_abort N a (Sleep s ms e) =
     AbortError (if a \<le> s \<or> a < s + ms then ''Aborted'' else ''This operation was aborted'')"
| "thrown_on_abort N a (Request k s) =
     (case outcome N k of
        Fails d err \<Rightarrow>
          if s + d = a then err else AbortError ''This operation was aborted''
      | Settles d res \<Rightarrow> AbortError ''This operation was aborted'')"

text \<open>The requests issued in a trace.\<close>

fun is_request :: "event \<Rightarrow> bool" where
  "is_request (Request k t) = True"
| "is_request (Sleep t ms t') = False"

definition requests :: "event list \<Rightarrow> event list" where
  "requests tr = filter is_request tr"

text \<open>A store holding the two chunks of the buffer \<open>[1, 2, 3]\<close> split as \<open>[1, 2]\<close> and
  \<open>[3]\<close> under the small crypto instance, with their descriptors.\<close>

definition two_chunk_store :: store where
  "two_chunk_store =
     \<lparr> next_id = 2,
       filed = [(''doc+'', ''documents/doc+'', [29, 1]), (''doc'', ''documents/doc'', [27, 28, 1])] \<rparr>"

definition first_chunk :: TelegramChunk where
  "first_chunk = \<lparr> chunkId = ''uuid_0'', chunkIndex = 0, messageId = 0,
      encryptedHash = ''1b1c01'', fileId = Some ''doc'' \<rparr>"

definition second_chunk :: TelegramChunk where
  "second_chunk = \<lparr> chunkId = ''uuid_1'', chunkIndex = 1, messageId = 1,
      encryptedHash = ''1d01'', fileId = Some ''doc+'' \<rparr>"

text \<open>The store of the two chunks with a data byte of the second chunk altered.\<close>

definition second_altered_store :: store where
  "second_altered_store =
     \<lparr> next_id = 2,
       filed = [(''doc+'', ''documents/doc+'', [30, 1]), (''doc'', ''documents/doc'', [27, 28, 1])] \<rparr>"

text \<open>When a step ends; and what every recorded event satisfies under a signal: a request
  is issued only while the signal is not aborted, and a sleep ends when \<open>sleep_at\<close> says.\<close>

fun time_of :: "step \<Rightarrow> nat" where
  "time_of (Continue t tr) = t"
| "time_of (Finished r t tr) = t"

fun trace_of :: "step \<Rightarrow> event list" where
  "trace_of (Continue t tr) = tr"
| "trace_of (Finished r t tr) = tr"

fun timely :: "abort_signal \<Rightarrow> event \<Rightarrow> bool" where
  "timely sig (Request k s) = (\<not> aborted sig s)"
| "timely sig (Sleep s ms e) = (e = snd (sleep_at sig s ms))"

text \<open>Two scripted networks: every request answered 503 after 10 ms; every request
  answered 404 after 10 ms; every request answered only after 70 s.\<close>

definition always_503 :: network where
  "always_503 = \<lparr> outcome = (\<lambda>k. Settles 10 \<lparr> status = 503, retryAfter = Absent,
                      statusText = ''Service Unavailable'', body = [] \<rparr>),
                   jitter_try = (\<lambda>k. 7), jitter_catch = (\<lambda>k. 0) \<rparr>"

definition always_404 :: network where
  "always_404 = \<lparr> outcome = (\<lambda>k. Settles 10 \<lparr> status = 404, retryAfter = Absent,
                      statusText = ''Not Found'', body = [] \<rparr>),
                   jitter_try = (\<lambda>k. 7), jitter_catch = (\<lambda>k. 0) \<rparr>"

definition always_slow :: network where
  "always_slow = \<lparr> outcome = (\<lambda>k. Settles 70000 \<lparr> status = 200, retryAfter = Absent,
                      statusText = ''OK'', body = [] \<rparr>),
                   jitter_try = (\<lambda>k. 0), jitter_catch = (\<lambda>k. 0) \<rparr>"

subsection \<open>Client upload queue\<close>

text \<open>
  The state of \<open>UploadManagerProvider\<close>: the \<open>uploads\<close> array, the set
  \<open>activeUploadsRef.current\<close>, the abort controllers (a controller is a number, and
  \<open>abortedControllers\<close> lists those on which \<open>abort()\<close> was called), and the invocations
  of \<open>processUpload\<close> that are suspended at an \<open>await\<close>. The fields of \<open>UploadFile\<close> carry
  the prefix \<open>up_\<close>. Upload ids come from a counter (\<open>generateUploadId\<close> combines the
  clock with a random string). Every function below is one run of the source between
  two \<open>await\<close>s, applied to the state as it stands.
\<close>

definition MAX_CONCURRENT_UPLOADS :: nat where
  "MAX_CONCURRENT_UPLOADS = 3"

definition RETRY_ATTEMPTS :: nat where
  "RETRY_ATTEMPTS = 3"

datatype UploadStatus = Pending | Uploading | Paused | Completed | Error | Cancelled

record File =
  f_name :: string
  f_type :: string
  f_bytes :: buffer

record UploadFile =
  up_id :: string
  up_file :: File
  up_name :: string
  up_size :: nat
  up_type :: string
  up_progress :: real
  up_status :: UploadStatus
  up_error :: "string option"
  up_folderId :: "string option"
  up_userId :: string
  up_telegramStorageId :: "string option"
  up_fileId :: "string option"
  up_chunks :: "TelegramChunk option list"
  up_totalChunks :: nat
  up_currentChunk :: nat
  up_uploadSpeed :: "real option"
  up_estimatedTimeRemaining :: "real option"
  up_retryCount :: "nat option"
  up_abortController :: "nat option"
  up_createdAt :: nat

text \<open>A suspended \<open>processUpload\<close>: its variable \<open>upload\<close>, the \<open>uploads\<close> array its closure
  sees, the loop variable \<open>i\<close>, \<open>totalChunks\<close>, the local array \<open>chunks\<close>, whether it took
  the image branch, and whether it has marked the upload completed and awaits
  \<open>createFileRecord\<close>.\<close>

record task =
  t_upload :: UploadFile
  t_closure :: "UploadFile list"
  t_i :: nat
  t_total :: nat
  t_chunks :: "TelegramChunk option list"
  t_image :: bool
  t_recorded :: bool

record manager =
  uploads :: "UploadFile list"
  activeUploads :: "string list"
  abortedControllers :: "nat list"
  nextController :: nat
  nextUploadId :: nat
  tasks :: "task list"

definition upload_id_of :: "nat \<Rightarrow> string" where
  "upload_id_of n = ''upload'' @ replicate n (CHR ''+'')"

definition canStartUpload :: "manager \<Rightarrow> bool" where
  "canStartUpload s = (length (activeUploads s) < MAX_CONCURRENT_UPLOADS)"

definition addToActive :: "string \<Rightarrow> manager \<Rightarrow> manager" where
  "addToActive x s = s\<lparr> activeUploads := List.insert x (activeUploads s) \<rparr>"

definition removeFromActive :: "string \<Rightarrow> manager \<Rightarrow> manager" where
  "removeFromActive x s = s\<lparr> activeUploads := removeAll x (activeUploads s) \<rparr>"

definition updateUpload :: "string \<Rightarrow> (UploadFile \<Rightarrow> UploadFile) \<Rightarrow> manager \<Rightarrow> manager" where
  "updateUpload x updates s =
     s\<lparr> uploads := map (\<lambda>upload. if up_id upload = x then updates upload else upload) (uploads s) \<rparr>"

definition abort :: "nat option \<Rightarrow> manager \<Rightarrow> manager" where
  "abort c s = (case c of None \<Rightarrow> s
                | Some n \<Rightarrow> s\<lparr> abortedControllers := List.insert n (abortedControllers s) \<rparr>)"

definition signal_aborted :: "manager \<Rightarrow> nat option \<Rightarrow> bool" where
  "signal_aborted s c = (case c of None \<Rightarrow> False | Some n \<Rightarrow> n \<in> set (abortedControllers s))"

definition calculateProgress :: "nat \<Rightarrow> nat \<Rightarrow> real" where
  "calculateProgress current nchunks =
     (if nchunks = 0 then 0 else min 100 ((real current / real nchunks) * 100))"

text \<open>\<open>prev.map(callback)\<close> with a callback that also writes to the refs: the callback
  runs on the elements from left to right.\<close>

fun map_state :: "('a \<Rightarrow> 's \<Rightarrow> 'b \<times> 's) \<Rightarrow> 'a list \<Rightarrow> 's \<Rightarrow> 'b list \<times> 's" where
  "map_state f [] s = ([], s)"
| "map_state f (x # xs) s =
     (case f x s of (y, s1) \<Rightarrow> (case map_state f xs s1 of (ys, s2) \<Rightarrow> (y # ys, s2)))"

definition pause_one :: "string \<Rightarrow> UploadFile \<Rightarrow> manager \<Rightarrow> UploadFile \<times> manager" where
  "pause_one x upload s =
     (if up_id upload = x \<and> up_status upload = Uploading then
        (let s1 = abort (up_abortController upload) s;
             s2 = removeFromActive x s1
         in (upload\<lparr> up_status := Paused, up_abortController := Some (nextController s2) \<rparr>,
             s2\<lparr> nextController := Suc (nextController s2) \<rparr>))
      else (upload, s))"

definition pauseUpload :: "string \<Rightarrow> manager \<Rightarrow> manager" where
  "pauseUpload x s = (case map_state (pause_one x) (uploads s) s of (us, s') \<Rightarrow> s'\<lparr> uploads := us \<rparr>)"

definition resume_one :: "string \<Rightarrow> UploadFile \<Rightarrow> manager \<Rightarrow> UploadFile \<times> manager" where
  "resume_one x upload s =
     (if up_id upload = x \<and> up_status upload = Paused then
        (upload\<lparr> up_status := Pending, up_error := None,
                 up_abortController := Some (nextController s) \<rparr>,
         s\<lparr> nextController := Suc (nextController s) \<rparr>)
      else (upload, s))"

definition resumeUpload :: "string \<Rightarrow> manager \<Rightarrow> manager" where
  "resumeUpload x s = (case map_state (resume_one x) (uploads s) s of (us, s') \<Rightarrow> s'\<lparr> uploads := us \<rparr>)"

definition cancel_one :: "string \<Rightarrow> UploadFile \<Rightarrow> manager \<Rightarrow> UploadFile \<times> manager" where
  "cancel_one x upload s =
     (if up_id upload = x then
        (upload\<lparr> up_status := Cancelled \<rparr>,
         removeFromActive x (abort (up_abortController upload) s))
      else (upload, s))"

definition cancelUpload :: "string \<Rightarrow> manager \<Rightarrow> manager" where
  "cancelUpload x s = (case map_state (cancel_one x) (uploads s) s of (us, s') \<Rightarrow> s'\<lparr> uploads := us \<rparr>)"

definition retry_one :: "string \<Rightarrow> UploadFile \<Rightarrow> manager \<Rightarrow> UploadFile \<times> manager" where
  "retry_one x upload s =
     (if up_id upload = x \<and> up_status upload = Error then
        (let currentRetryCount = (case up_retryCount upload of None \<Rightarrow> 0 | Some n \<Rightarrow> n)
         in if currentRetryCount \<ge> RETRY_ATTEMPTS * 2 then (upload, s)
            else (upload\<lparr> up_status := Pending, up_error := None, up_progress := 0,
                          up_currentChunk := 0, up_uploadSpeed := None,
                          up_estimatedTimeRemaining := None,
                          up_retryCount := Some currentRetryCount,
                          up_abortController := Some (nextController s) \<rparr>,
                  s\<lparr> nextController := Suc (nextController s) \<rparr>))
      else (upload, s))"

definition retryUpload :: "string \<Rightarrow> manager \<Rightarrow> manager" where
  "retryUpload x s = (case map_state (retry_one x) (uploads s) s of (us, s') \<Rightarrow> s'\<lparr> uploads := us \<rparr>)"

definition removeUpload :: "string \<Rightarrow> manager \<Rightarrow> manager" where
  "removeUpload x s =
     (let s1 = (case find (\<lambda>u. up_id u = x) (uploads s) of
                  None \<Rightarrow> s
                | Some upload \<Rightarrow> abort (up_abortController upload) s);
          s2 = removeFromActive x s1
      in s2\<lparr> uploads := filter (\<lambda>u. up_id u \<noteq> x) (uploads s2) \<rparr>)"

definition clearCompleted :: "manager \<Rightarrow> manager" where
  "clearCompleted s =
     s\<lparr> uploads := filter (\<lambda>u. up_status u \<notin> {Completed, Cancelled, Error}) (uploads s) \<rparr>"

definition clearAll :: "manager \<Rightarrow> manager" where
  "clearAll s = (fold (\<lambda>upload. abort (up_abortController upload)) (uploads s) s)\<lparr> uploads := [] \<rparr>"

text \<open>\<open>addUploads\<close>: \<open>init\<close> is what \<open>initializeUploadSession\<close> returns or throws for a
  file, \<open>now\<close> the clock. A file of size 0 is skipped before any session is opened.\<close>

fun add_loop ::
  "(File \<Rightarrow> error + string) \<Rightarrow> string option \<Rightarrow> string \<Rightarrow> nat \<Rightarrow> File list
     \<Rightarrow> UploadFile list \<Rightarrow> manager \<Rightarrow> (error + UploadFile list) \<times> manager" where
  "add_loop init folderId userId now [] newUploads s = (Inr newUploads, s)"
| "add_loop init folderId userId now (file # rest) newUploads s =
     (if length (f_bytes file) = 0 then add_loop init folderId userId now rest newUploads s
      else
        (case init file of
           Inl e \<Rightarrow> (Inl e, s)
         | Inr fid \<Rightarrow>
             (let nchunks = ceil_div (length (f_bytes file)) CHUNK_SIZE;
                  upload = \<lparr> up_id = upload_id_of (nextUploadId s),
                             up_file = file,
                             up_name = f_name file,
                             up_size = length (f_bytes file),
                             up_type = f_type file,
                             up_progress = 0,
                             up_status = Pending,
                             up_error = None,
                             up_folderId = folderId,
                             up_userId = userId,
                             up_telegramStorageId = None,
                             up_fileId = Some fid,
                             up_chunks = [],
                             up_totalChunks = nchunks,
                             up_currentChunk = 0,
                             up_uploadSpeed = None,
                             up_estimatedTimeRemaining = None,
                             up_retryCount = Some 0,
                             up_abortController = Some (nextController s),
                             up_createdAt = now \<rparr>
              in add_loop init folderId userId now rest (newUploads @ [upload])
                   (s\<lparr> nextUploadId := Suc (nextUploadId s),
                       nextController := Suc (nextController s) \<rparr>))))"

definition addUploads ::
  "(File \<Rightarrow> error + string) \<Rightarrow> File list \<Rightarrow> string option \<Rightarrow> string option \<Rightarrow> nat
     \<Rightarrow> manager \<Rightarrow> (error + unit) \<times> manager" where
  "addUploads init files folderId userId now s =
     (case userId of
        None \<Rightarrow> (Inl (Thrown ''User ID is required for uploads''), s)
      | Some uid \<Rightarrow>
          if uid = [] then (Inl (Thrown ''User ID is required for uploads''), s)
          else
            (case add_loop init folderId uid now files [] s of
               (Inl e, s') \<Rightarrow> (Inl (FailedToAddUploads e), s')
             | (Inr newUploads, s') \<Rightarrow> (Inr (), s'\<lparr> uploads := uploads s' @ newUploads \<rparr>)))"



text \<open>The \<open>catch\<close> and \<open>finally\<close> of \<open>processUpload\<close> for the invocation \<open>T\<close>: \<open>is_abort\<close> says
  whether the error counts as an abort (its name is \<open>AbortError\<close> or its message matches
  \<open>/abort|cancel/i\<close>), \<open>text\<close> is the message stored for any other error. The invocation
  is over afterwards.\<close>

definition task_id :: "task \<Rightarrow> string" where
  "task_id T = up_id (t_upload T)"

definition task_threw :: "task \<Rightarrow> bool \<Rightarrow> string \<Rightarrow> manager \<Rightarrow> manager" where
  "task_threw T is_abort text s =
     (let s1 =
        (if is_abort then
           (if map_option up_status (find (\<lambda>u. up_id u = task_id T) (t_closure T)) \<noteq> Some Cancelled
            then updateUpload (task_id T) (\<lambda>u. u\<lparr> up_status := Paused \<rparr>) s
            else s)
         else
           updateUpload (task_id T)
             (\<lambda>u. u\<lparr> up_status := Error, up_error := Some text,
                      up_retryCount := Some ((case up_retryCount (t_upload T) of
                                                None \<Rightarrow> 0 | Some n \<Rightarrow> n) + 1) \<rparr>) s)
      in removeFromActive (task_id T) s1)"

text \<open>The chunked branch from the loop test on, for the invocation \<open>T\<close> with \<open>i = t_i T\<close>,
  up to the next \<open>await\<close>: the abort check and the \<open>await\<close> of \<open>uploadChunk\<close>, or after the
  last chunk the completion update and the \<open>await\<close> of \<open>createFileRecord\<close>.\<close>

definition chunk_loop_head :: "task \<Rightarrow> manager \<Rightarrow> manager" where
  "chunk_loop_head T s =
     (if t_i T < t_total T then
        (if signal_aborted s (up_abortController (t_upload T))
         then task_threw T True ''Upload cancelled'' s
         else s\<lparr> tasks := tasks s @ [T] \<rparr>)
      else
        (let s1 = updateUpload (task_id T)
                    (\<lambda>u. u\<lparr> up_status := Completed, up_progress := 100,
                             up_telegramStorageId := up_fileId (t_upload T),
                             up_estimatedTimeRemaining := Some 0 \<rparr>) s
         in s1\<lparr> tasks := tasks s1 @ [T\<lparr> t_recorded := True \<rparr>] \<rparr>))"

text \<open>\<open>processUpload(upload)\<close> from its call to its first \<open>await\<close>. The updater passed
  to \<open>setUploads\<close> to read the current record is taken to run at once, as the source
  presumes when it tests \<open>currentUpload\<close> on the next line.\<close>

definition processUpload :: "UploadFile \<Rightarrow> manager \<Rightarrow> manager" where
  "processUpload upload0 s =
     (if \<not> canStartUpload s then s
      else
        (case find (\<lambda>u. up_id u = up_id upload0) (uploads s) of
           None \<Rightarrow> s
         | Some currentUpload \<Rightarrow>
             if up_status currentUpload \<noteq> Pending then s
             else
               (let upload = currentUpload;
                    s1 = addToActive (up_id upload) s;
                    s2 = updateUpload (up_id upload)
                           (\<lambda>u. u\<lparr> up_status := Uploading, up_error := None \<rparr>) s1;
                    isImage = (take 6 (up_type upload) = ''image/'');
                    T = \<lparr> t_upload = upload, t_closure = uploads s, t_i = up_currentChunk upload,
                          t_total = ceil_div (up_size upload) CHUNK_SIZE,
                          t_chunks = replicate (ceil_div (up_size upload) CHUNK_SIZE) None,
                          t_image = isImage, t_recorded = False \<rparr>
                in if isImage then
                     (if signal_aborted s2 (up_abortController upload)
                      then task_threw T True ''Upload was cancelled'' s2
                      else s2\<lparr> tasks := tasks s2 @ [T] \<rparr>)
                   else
                     chunk_loop_head T
                       (updateUpload (up_id upload)
                          (\<lambda>u. u\<lparr> up_totalChunks := t_total T \<rparr>) s2))))"

text \<open>The loop of \<open>processQueue\<close> over the pending uploads, and \<open>processQueue\<close>: the uploads
  over the retry limit are marked first, then the loop runs.\<close>

fun start_pending :: "UploadFile list \<Rightarrow> manager \<Rightarrow> manager" where
  "start_pending [] s = s"
| "start_pending (upload # rest) s =
     (if canStartUpload s then start_pending rest (processUpload upload s) else s)"

definition retries_of :: "UploadFile \<Rightarrow> nat" where
  "retries_of u = (case up_retryCount u of None \<Rightarrow> 0 | Some n \<Rightarrow> n)"

definition processQueue :: "manager \<Rightarrow> manager" where
  "processQueue s =
     (let pendingUploads =
            filter (\<lambda>u. up_status u = Pending \<and> \<not> retries_of u \<ge> RETRY_ATTEMPTS * 2) (uploads s);
          exceeded =
            filter (\<lambda>u. up_status u = Pending \<and> retries_of u \<ge> RETRY_ATTEMPTS * 2) (uploads s);
          s1 = fold (\<lambda>u. updateUpload (up_id u)
                       (\<lambda>v. v\<lparr> up_status := Error,
                                up_error := Some ''Maximum retry attempts exceeded'' \<rparr>))
                 exceeded s
      in start_pending pendingUploads s1)"

text \<open>What happens when an \<open>await\<close> of the \<open>k\<close>-th suspended invocation settles.\<close>

definition drop_task :: "nat \<Rightarrow> manager \<Rightarrow> manager" where
  "drop_task k s = s\<lparr> tasks := take k (tasks s) @ drop (Suc k) (tasks s) \<rparr>"

definition chunk_uploaded :: "nat \<Rightarrow> TelegramChunk \<Rightarrow> real \<Rightarrow> real \<Rightarrow> manager \<Rightarrow> manager" where
  "chunk_uploaded k chunk speed eta s =
     (if k < length (tasks s) \<and> \<not> t_image (tasks s ! k) \<and> \<not> t_recorded (tasks s ! k)
         \<and> t_i (tasks s ! k) < t_total (tasks s ! k) then
        (let T = tasks s ! k;
             i = t_i T;
             cs = (t_chunks T)[i := Some chunk];
             s1 = updateUpload (task_id T)
                    (\<lambda>u. u\<lparr> up_currentChunk := i + 1,
                             up_progress := calculateProgress (i + 1) (t_total T),
                             up_uploadSpeed := Some speed,
                             up_estimatedTimeRemaining := Some eta,
                             up_chunks := cs \<rparr>) (drop_task k s)
         in chunk_loop_head (T\<lparr> t_i := i + 1, t_chunks := cs \<rparr>) s1)
      else s)"

definition image_uploaded ::
  "nat \<Rightarrow> string \<Rightarrow> TelegramChunk list \<Rightarrow> real \<Rightarrow> manager \<Rightarrow> manager" where
  "image_uploaded k tsid cs speed s =
     (if k < length (tasks s) \<and> t_image (tasks s ! k) \<and> \<not> t_recorded (tasks s ! k) then
        (let T = tasks s ! k;
             s1 = updateUpload (task_id T)
                    (\<lambda>u. u\<lparr> up_status := Completed, up_progress := 100,
                             up_telegramStorageId := Some tsid,
                             up_chunks := map Some cs,
                             up_uploadSpeed := Some speed \<rparr>) (drop_task k s)
         in s1\<lparr> tasks := tasks s1 @ [T\<lparr> t_recorded := True \<rparr>] \<rparr>)
      else s)"

definition record_created :: "nat \<Rightarrow> manager \<Rightarrow> manager" where
  "record_created k s =
     (if k < length (tasks s) \<and> t_recorded (tasks s ! k)
      then removeFromActive (task_id (tasks s ! k)) (drop_task k s)
      else s)"

definition await_rejected :: "nat \<Rightarrow> bool \<Rightarrow> string \<Rightarrow> manager \<Rightarrow> manager" where
  "await_rejected k is_abort text s =
     (if k < length (tasks s) then task_threw (tasks s ! k) is_abort text (drop_task k s) else s)"

text \<open>The things that can happen to the queue, one at a time, and a run of them from the
  state of a freshly mounted provider.\<close>

datatype action =
    AddUploads "File \<Rightarrow> error + string" "File list" "string option" "string option" nat
  | ProcessQueue
  | PauseUpload string
  | ResumeUpload string
  | RetryUpload string
  | CancelUpload string
  | RemoveUpload string
  | ClearCompleted
  | ClearAll
  | ChunkUploaded nat TelegramChunk real real
  | ImageUploaded nat string "TelegramChunk list" real
  | RecordCreated nat
  | AwaitRejected nat bool string

fun act :: "action \<Rightarrow> manager \<Rightarrow> manager" where
  "act (AddUploads init files folderId userId now) s = snd (addUploads init files folderId userId now s)"
| "act ProcessQueue s = processQueue s"
| "act (PauseUpload x) s = pauseUpload x s"
| "act (ResumeUpload x) s = resumeUpload x s"
| "act (RetryUpload x) s = retryUpload x s"
| "act (CancelUpload x) s = cancelUpload x s"
| "act (RemoveUpload x) s = removeUpload x s"
| "act ClearCompleted s = clearCompleted s"
| "act ClearAll s = clearAll s"
| "act (ChunkUploaded k chunk speed eta) s = chunk_uploaded k chunk speed eta s"
| "act (ImageUploaded k tsid cs speed) s = image_uploaded k tsid cs speed s"
| "act (RecordCreated k) s = record_created k s"
| "act (AwaitRejected k is_abort text) s = await_rejected k is_abort text s"

definition mounted :: manager where
  "mounted = \<lparr> uploads = [], activeUploads = [], abortedControllers = [], nextController = 0,
               nextUploadId = 0, tasks = [] \<rparr>"

definition run :: "action list \<Rightarrow> manager \<Rightarrow> manager" where
  "run as s = fold act as s"

definition uploading :: "manager \<Rightarrow> UploadFile list" where
  "uploading s = filter (\<lambda>u. up_status u = Uploading) (uploads s)"

text \<open>
  The invariant of the queue, on the four components it reads: at most
  \<open>MAX_CONCURRENT_UPLOADS\<close> distinct active ids; distinct upload ids, all handed out by
  the counter; every upload in the uploading state is active; and for every suspended
  invocation: its id was handed out, the array in its closure does not show its upload
  as cancelled, and its upload is not pending, nor uploading once the invocation has
  marked it completed. \<open>calmer us us'\<close> relates two arrays with the same ids where a
  status either stays or leaves the pending and uploading states.
\<close>

definition task_ok :: "UploadFile list \<Rightarrow> nat \<Rightarrow> task \<Rightarrow> bool" where
  "task_ok us n T \<longleftrightarrow>
     (\<exists>m<n. task_id T = upload_id_of m)
     \<and> map_option up_status (find (\<lambda>u. up_id u = task_id T) (t_closure T)) \<noteq> Some Cancelled
     \<and> (\<forall>u\<in>set us. up_id u = task_id T \<longrightarrow>
           up_status u \<noteq> Pending \<and> (t_recorded T \<longrightarrow> up_status u \<noteq> Uploading))"

definition orderly :: "UploadFile list \<Rightarrow> string list \<Rightarrow> nat \<Rightarrow> task list \<Rightarrow> bool" where
  "orderly us active n ts \<longleftrightarrow>
     length active \<le> MAX_CONCURRENT_UPLOADS \<and> distinct active
     \<and> distinct (map up_id us)
     \<and> (\<forall>u\<in>set us. \<exists>m<n. up_id u = upload_id_of m)
     \<and> (\<forall>u\<in>set us. up_status u = Uploading \<longrightarrow> up_id u \<in> set active)
     \<and> (\<forall>T\<in>set ts. task_ok us n T)"

definition queue_inv :: "manager \<Rightarrow> bool" where
  "queue_inv s = orderly (uploads s) (activeUploads s) (nextUploadId s) (tasks s)"

definition calmer :: "UploadFile list \<Rightarrow> UploadFile list \<Rightarrow> bool" where
  "calmer us us' =
     list_all2 (\<lambda>u u'. up_id u' = up_id u
        \<and> (up_status u' = up_status u \<or> up_status u' \<notin> {Pending, Uploading})) us us'"

section \<open>Properties\<close>

subsection \<open>Ceiling division and slices\<close>

lemma neg_div_neg: "0 < (b::int) \<Longrightarrow> - (- a div b) = (a + b - 1) div b"
proof -
  assume b: "0 < b"
  have r: "0 \<le> a mod b" "a mod b < b" using b by auto
  have "(a + b - 1) div b = (b * (a div b) + (a mod b + b - 1)) div b"
    by (rule arg_cong[of _ _ "\<lambda>x. x div b"]) (simp add: algebra_simps)
  also have "\<dots> = a div b + (a mod b + b - 1) div b" using b by (simp only: div_mult_self4)
  finally have e: "(a + b - 1) div b = a div b + (a mod b + b - 1) div b" .
  show ?thesis
  proof (cases "a mod b = 0")
    case True
    then have "(a mod b + b - 1) div b = 0" using b by simp
    with e True b show ?thesis by (simp add: zdiv_zminus1_eq_if)
  next
    case False
    have "(a mod b + b - 1) div b = (b * 1 + (a mod b - 1)) div b"
      by (rule arg_cong[of _ _ "\<lambda>x. x div b"]) simp
    also have "\<dots> = 1 + (a mod b - 1) div b" using b by (simp only: div_mult_self4)
    also have "\<dots> = 1" using r False by simp
    finally show ?thesis using e False b by (simp add: zdiv_zminus1_eq_if)
  qed
qed


lemma ceil_div_eq: "0 < b \<Longrightarrow> ceil_div a b = (a + b - 1) div b"
proof -
  assume b: "0 < b"
  have "\<lceil>real a / real b\<rceil> = - (- int a div int b)"
    using ceiling_divide_eq_div[of "int a" "int b"] by simp
  also have "\<dots> = (int a + int b - 1) div int b"
    using b by (simp add: neg_div_neg)
  also have "\<dots> = int ((a + b - 1) div b)"
    using b by (simp add: zdiv_int of_nat_diff)
  finally show ?thesis by (simp add: ceil_div_def)
qed

lemma sort_key_perm:
  assumes "distinct (map f xs)" "mset ys = mset xs"
  shows "sort_key f ys = sort_key f xs"
  by (metis assms(1,2) distinct_map sort_key_eq_sort_key)

lemma uploadChunk_store:
  "uploadChunk L telegram_store fid (int i) (chunk_bytes buf i) name w =
     (Inr (descriptor L fid buf (next_id w - i) i),
      w\<lparr> next_id := Suc (next_id w), filed := store_entry L fid buf (next_id w - i) i # filed w \<rparr>)"
  if "i \<le> next_id w"
  using that by (simp add: uploadChunk_def telegram_store_def descriptor_def store_entry_def sent_bytes_def Let_def)

lemma upload_loop_store:
  "n - i = k \<Longrightarrow> i \<le> n \<Longrightarrow> next_id w = base + i \<Longrightarrow>
   upload_loop L telegram_store fid buf name n i acc w =
     (Inr (acc @ map (descriptor L fid buf base) [i..<n]),
      w\<lparr> next_id := base + n, filed := rev (map (store_entry L fid buf base) [i..<n]) @ filed w \<rparr>)"
proof (induction k arbitrary: i acc w)
  case 0
  then show ?case by (simp add: upload_loop.simps)
next
  case (Suc k)
  then have lt: "i < n" by simp
  have up: "uploadChunk L telegram_store fid (int i) (buffer_slice buf (i * CHUNK_SIZE) (min (i * CHUNK_SIZE + CHUNK_SIZE) (length buf))) name w =
     (Inr (descriptor L fid buf base i),
      w\<lparr> next_id := Suc (next_id w), filed := store_entry L fid buf base i # filed w \<rparr>)"
    using uploadChunk_store[of i w L fid buf name] Suc.prems by (simp add: chunk_bytes_def)
  let ?w1 = "w\<lparr> next_id := Suc (next_id w), filed := store_entry L fid buf base i # filed w \<rparr>"
  have ih: "upload_loop L telegram_store fid buf name n (Suc i) (acc @ [descriptor L fid buf base i]) ?w1 =
     (Inr ((acc @ [descriptor L fid buf base i]) @ map (descriptor L fid buf base) [Suc i..<n]),
      ?w1\<lparr> next_id := base + n, filed := rev (map (store_entry L fid buf base) [Suc i..<n]) @ filed ?w1 \<rparr>)"
    using Suc.prems by (intro Suc.IH) auto
  have sl: "sleep telegram_store w' ms = (Inr (), w')" "random telegram_store w' = (0, w')" for w' ms
    by (simp_all add: telegram_store_def)
  show ?case
    apply (subst upload_loop.simps)
    apply (simp only: lt if_True Let_def up prod.case sum.case sl ih)
    apply (simp add: upt_conv_Cons[OF lt])
    done
qed


lemma file_id_of_inj [simp]: "file_id_of a = file_id_of b \<longleftrightarrow> a = b"
  by (auto simp: file_id_of_def dest: arg_cong[of _ _ length])

lemma file_path_of_inj [simp]: "file_path_of a = file_path_of b \<longleftrightarrow> a = b"
  by (simp add: file_path_of_def)

lemma find_id_entries:
  "k < n \<Longrightarrow> find (\<lambda>(f, p, b). f = file_id_of (base + k))
       (rev (map (store_entry L fid buf base) [0..<n]) @ old) = Some (store_entry L fid buf base k)"
  by (induction n) (auto simp: store_entry_def less_Suc_eq)

lemma find_path_entries:
  "k < n \<Longrightarrow> find (\<lambda>(f, p, b). p = file_path_of (base + k))
       (rev (map (store_entry L fid buf base) [0..<n]) @ old) = Some (store_entry L fid buf base k)"
  by (induction n) (auto simp: store_entry_def less_Suc_eq)

lemma download_try_store:
  assumes ok: "\<And>key p. decipher L key (cipher L key p) = Inr p"
    and k: "k < n" and w: "filed w = rev (map (store_entry L fid buf base) [0..<n]) @ old"
  shows "download_try L telegram_store fid (descriptor L fid buf base k) (file_id_of (base + k)) w
           = (Inr (chunk_bytes buf k), w)"
  using find_id_entries[OF k, of base L fid buf old] find_path_entries[OF k, of base L fid buf old]
  by (simp add: download_try_def telegram_store_def lookup_id_def lookup_path_def w
      store_entry_def file_path_of_def descriptor_def sent_bytes_def decryptChunk_def encryptChunk_def ok)

lemma download_loop_store:
  assumes ok: "\<And>key p. decipher L key (cipher L key p) = Inr p"
    and w: "filed w = rev (map (store_entry L fid buf base) [0..<n]) @ old"
  shows "\<forall>k\<in>set ks. k < n \<Longrightarrow>
     download_loop L telegram_store fid (map (descriptor L fid buf base) ks) acc w
       = (Inr (acc @ map (chunk_bytes buf) ks), w)"
proof (induction ks arbitrary: acc)
  case Nil
  then show ?case by simp
next
  case (Cons k ks)
  then have k: "k < n" by simp
  have fid: "fileId (descriptor L fid buf base k) = Some (file_id_of (base + k))"
    "file_id_of (base + k) \<noteq> []"
    by (simp_all add: descriptor_def file_id_of_def)
  show ?case
    using Cons by (simp add: fid download_try_store[OF ok k w])
qed

lemma concat_take_chunks:
  "concat (map (\<lambda>i. take c (drop (i * c) xs)) [0..<n]) = take (n * c) xs"
proof (induction n)
  case 0
  then show ?case by simp
next
  case (Suc n)
  have "take (n * c + c) xs = take (n * c) xs @ take c (drop (n * c) xs)"
    by (rule take_add)
  with Suc show ?case by (simp add: add.commute)
qed

lemma chunk_bytes_take: "chunk_bytes buf i = take CHUNK_SIZE (drop (i * CHUNK_SIZE) buf)"
  by (simp add: chunk_bytes_def buffer_slice_def min_def)

lemma concat_chunk_bytes:
  "length buf \<le> n * CHUNK_SIZE \<Longrightarrow> concat (map (chunk_bytes buf) [0..<n]) = buf"
  using concat_take_chunks[of CHUNK_SIZE buf n] by (simp add: chunk_bytes_take[abs_def])


lemma ceil_div_unique:
  assumes "0 < b" and "a \<le> n * b" and "n * b < a + b"
  shows "ceil_div a b = n"
proof -
  have "(a + b - 1) div b = n"
    using assms by (intro div_nat_eqI) (simp_all add: algebra_simps)
  then show ?thesis using assms by (simp add: ceil_div_eq)
qed

lemma ceil_div_small: "0 < a \<Longrightarrow> a \<le> b \<Longrightarrow> ceil_div a b = 1"
  by (rule ceil_div_unique) simp_all

lemma ceil_div_0: "ceil_div 0 b = 0"
  by (simp add: ceil_div_def)

lemma ceil_div_covers: "0 < b \<Longrightarrow> a \<le> ceil_div a b * b"
proof -
  assume b: "0 < b"
  have "a + b - 1 < ((a + b - 1) div b) * b + b"
    using b div_mult_mod_eq[of "a + b - 1" b] mod_less_divisor[OF b, of "a + b - 1"] by linarith
  then show ?thesis using b by (simp add: ceil_div_eq)
qed

lemma ceil_div_tight: "0 < b \<Longrightarrow> 0 < a \<Longrightarrow> ceil_div a b * b < a + b"
proof -
  assume b: "0 < b" and a: "0 < a"
  have "(a + b - 1) div b * b \<le> a + b - 1"
    by (rule div_times_less_eq_dividend)
  also have "\<dots> < a + b" using a by simp
  finally show ?thesis using b by (simp add: ceil_div_eq)
qed

lemma uploadFile_store:
  assumes n: "n = max 1 (ceil_div (length buf) CHUNK_SIZE)"
  shows "uploadFile L telegram_store fid buf name w =
     (Inr \<lparr> telegramStorageId = fid,
            chunks = map (descriptor L fid buf (next_id w)) [0..<n],
            totalChunks = n \<rparr>,
      w\<lparr> next_id := next_id w + n,
         filed := rev (map (store_entry L fid buf (next_id w)) [0..<n]) @ filed w \<rparr>)"
proof (cases "length buf \<le> CHUNK_SIZE")
  case True
  have cs: "0 < CHUNK_SIZE" by (simp add: CHUNK_SIZE_def)
  have "ceil_div (length buf) CHUNK_SIZE \<le> 1"
    using True cs by (cases "length buf = 0") (simp_all add: ceil_div_0 ceil_div_small)
  then have n1: "n = 1" using n by simp
  have cb: "chunk_bytes buf 0 = buf" using True by (simp add: chunk_bytes_take)
  show ?thesis
    using uploadChunk_store[of 0 w L fid buf name] True
    by (simp add: uploadFile_def cb n1)
next
  case False
  have cs: "0 < CHUNK_SIZE" by (simp add: CHUNK_SIZE_def)
  have "CHUNK_SIZE < length buf" using False by simp
  then have "1 < ceil_div (length buf) CHUNK_SIZE"
    using ceil_div_covers[OF cs, of "length buf"]
    by (cases "ceil_div (length buf) CHUNK_SIZE \<le> 1") (auto simp: le_Suc_eq)
  then have nn: "n = ceil_div (length buf) CHUNK_SIZE" using n by simp
  show ?thesis
    using upload_loop_store[of n 0 n w "next_id w" L fid buf name "[]"] False
    by (simp add: uploadFile_def nn)
qed

text \<open>
  C5. Chunk ordering invariance: when the descriptors have pairwise distinct
  \<open>chunkIndex\<close> values, \<open>downloadFileByChunks\<close> gives the same result, and leaves the
  backend in the same state, for every permutation of the descriptor list, whatever the
  backend and the crypto library are.
\<close>

theorem download_order_invariant:
  assumes "distinct (map chunkIndex cs)" and "mset cs' = mset cs"
  shows "downloadFileByChunks L B fid cs' w = downloadFileByChunks L B fid cs w"
  using sort_key_perm[OF assms] by (simp add: downloadFileByChunks_def)

theorem download_order_invariant_witness:
  "distinct (map chunkIndex [first_chunk, second_chunk])
   \<and> mset [second_chunk, first_chunk] = mset [first_chunk, second_chunk]
   \<and> downloadFileByChunks small_crypto telegram_store ''uuid'' [second_chunk, first_chunk] two_chunk_store
       = downloadFileByChunks small_crypto telegram_store ''uuid'' [first_chunk, second_chunk] two_chunk_store
   \<and> downloadFileByChunks small_crypto telegram_store ''uuid'' [second_chunk, first_chunk] two_chunk_store
       = (Inr [1, 2, 3], two_chunk_store)"
proof -
  have d: "distinct (map chunkIndex [first_chunk, second_chunk])"
    by (simp add: first_chunk_def second_chunk_def)
  have m: "mset [second_chunk, first_chunk] = mset [first_chunk, second_chunk]"
    by simp
  have v: "downloadFileByChunks small_crypto telegram_store ''uuid'' [first_chunk, second_chunk] two_chunk_store
       = (Inr [1, 2, 3], two_chunk_store)"
    by (simp add: small_crypto_def first_chunk_def second_chunk_def two_chunk_store_def
        hex_byte_def lookup_id_def lookup_path_def downloadFileByChunks_def download_try_def
        telegram_store_def decryptChunk_def generateEncryptionKey_def show_int_def
        decimal.simps utf8_def)
  show ?thesis
    using d m v download_order_invariant [OF d m, of small_crypto telegram_store "''uuid''" two_chunk_store]
    by simp
qed

lemma length_chunk_bytes:
  "length (chunk_bytes buf i) = min CHUNK_SIZE (length buf - i * CHUNK_SIZE)"
  by (simp add: chunk_bytes_take min.commute)

text \<open>
  C6. Chunk-split arithmetic: for a buffer of length \<open>L > 0\<close> sent to the storing backend,
  \<open>uploadFile\<close> returns \<open>totalChunks = ceil (L / CHUNK_SIZE)\<close>, equal to the number of
  descriptors; the descriptors carry the indices \<open>0, 1, ..\<close> in the order in which the
  backend received the documents; document \<open>i\<close> is the encryption of the bytes from
  \<open>i * CHUNK_SIZE\<close> up to \<open>min ((i + 1) * CHUNK_SIZE) L\<close>; every chunk but the last has
  \<open>CHUNK_SIZE\<close> bytes and the last is not empty and not longer. The witness is the
  12 MiB buffer: three chunks of 5, 5 and 2 MiB.
\<close>

theorem uploadFile_chunk_split:
  assumes pos: "0 < length buf"
  shows "\<exists>r w'. uploadFile L telegram_store fid buf name w = (Inr r, w')
      \<and> totalChunks r = ceil_div (length buf) CHUNK_SIZE
      \<and> totalChunks r = length (chunks r)
      \<and> map chunkIndex (chunks r) = map int [0..<totalChunks r]
      \<and> map messageId (chunks r) = map (\<lambda>i. int (next_id w + i)) [0..<totalChunks r]
      \<and> filed w' = rev (map (\<lambda>i. (file_id_of (next_id w + i), file_path_of (next_id w + i),
                       encryptChunk L
                         (buffer_slice buf (i * CHUNK_SIZE) (min (i * CHUNK_SIZE + CHUNK_SIZE) (length buf)))
                         (generateEncryptionKey L fid (int i)))) [0..<totalChunks r]) @ filed w
      \<and> (\<forall>i < totalChunks r.
            length (buffer_slice buf (i * CHUNK_SIZE) (min (i * CHUNK_SIZE + CHUNK_SIZE) (length buf)))
              = (if Suc i < totalChunks r then CHUNK_SIZE else length buf - i * CHUNK_SIZE)
            \<and> 0 < length buf - i * CHUNK_SIZE
            \<and> (Suc i = totalChunks r \<longrightarrow> length buf - i * CHUNK_SIZE \<le> CHUNK_SIZE))"
proof -
  define n where "n = ceil_div (length buf) CHUNK_SIZE"
  have cs: "0 < CHUNK_SIZE" by (simp add: CHUNK_SIZE_def)
  have cover: "length buf \<le> n * CHUNK_SIZE" unfolding n_def by (rule ceil_div_covers[OF cs])
  have npos: "0 < n" using cover pos by (cases n) simp_all
  have tight: "n * CHUNK_SIZE < length buf + CHUNK_SIZE"
    unfolding n_def by (rule ceil_div_tight[OF cs pos])
  have nmax: "n = max 1 (ceil_div (length buf) CHUNK_SIZE)" using npos by (simp add: n_def)
  define r where "r = \<lparr> telegramStorageId = fid,
            chunks = map (descriptor L fid buf (next_id w)) [0..<n], totalChunks = n \<rparr>"
  define w' where "w' = w\<lparr> next_id := next_id w + n,
         filed := rev (map (store_entry L fid buf (next_id w)) [0..<n]) @ filed w \<rparr>"
  have up: "uploadFile L telegram_store fid buf name w = (Inr r, w')"
    unfolding r_def w'_def by (rule uploadFile_store[OF nmax])
  have sizes: "length (buffer_slice buf (i * CHUNK_SIZE) (min (i * CHUNK_SIZE + CHUNK_SIZE) (length buf)))
              = (if Suc i < n then CHUNK_SIZE else length buf - i * CHUNK_SIZE)
            \<and> 0 < length buf - i * CHUNK_SIZE
            \<and> (Suc i = n \<longrightarrow> length buf - i * CHUNK_SIZE \<le> CHUNK_SIZE)" if i: "i < n" for i
  proof (cases "Suc i < n")
    case True
    then have "Suc (Suc i) * CHUNK_SIZE \<le> n * CHUNK_SIZE" by (intro mult_le_mono1) simp
    then have "i * CHUNK_SIZE + CHUNK_SIZE < length buf" using tight by simp
    then show ?thesis using True by (simp add: buffer_slice_def)
  next
    case False
    then have n: "n = Suc i" using i by simp
    have "i * CHUNK_SIZE < length buf" "length buf \<le> i * CHUNK_SIZE + CHUNK_SIZE"
      using tight cover by (simp_all add: n)
    then show ?thesis using False n by (simp add: buffer_slice_def)
  qed
  have 1: "totalChunks r = ceil_div (length buf) CHUNK_SIZE" by (simp add: r_def n_def)
  have 2: "totalChunks r = length (chunks r)" by (simp add: r_def)
  have 3: "map chunkIndex (chunks r) = map int [0..<totalChunks r]"
    by (simp add: r_def descriptor_def comp_def)
  have 4: "map messageId (chunks r) = map (\<lambda>i. int (next_id w + i)) [0..<totalChunks r]"
    by (simp add: r_def descriptor_def comp_def)
  have 5: "filed w' = rev (map (\<lambda>i. (file_id_of (next_id w + i), file_path_of (next_id w + i),
                       encryptChunk L
                         (buffer_slice buf (i * CHUNK_SIZE) (min (i * CHUNK_SIZE + CHUNK_SIZE) (length buf)))
                         (generateEncryptionKey L fid (int i)))) [0..<totalChunks r]) @ filed w"
    by (simp add: r_def w'_def store_entry_def[abs_def] sent_bytes_def chunk_bytes_def)
  have 6: "\<forall>i < totalChunks r.
            length (buffer_slice buf (i * CHUNK_SIZE) (min (i * CHUNK_SIZE + CHUNK_SIZE) (length buf)))
              = (if Suc i < totalChunks r then CHUNK_SIZE else length buf - i * CHUNK_SIZE)
            \<and> 0 < length buf - i * CHUNK_SIZE
            \<and> (Suc i = totalChunks r \<longrightarrow> length buf - i * CHUNK_SIZE \<le> CHUNK_SIZE)"
    using sizes by (simp add: r_def)
  from up 1 2 3 4 5 6 show ?thesis by blast
qed

theorem uploadFile_chunk_split_witness:
  "0 < length (replicate (12 * 1024 * 1024) (0 :: 8 word)) \<and>
   (\<exists>r w'. uploadFile small_crypto telegram_store ''uuid'' (replicate (12 * 1024 * 1024) 0) ''big.bin''
              \<lparr>next_id = 0, filed = []\<rparr> = (Inr r, w')
      \<and> totalChunks r = 3 \<and> length (chunks r) = 3
      \<and> map chunkIndex (chunks r) = [0, 1, 2]
      \<and> map (\<lambda>i. length (buffer_slice (replicate (12 * 1024 * 1024) (0 :: 8 word)) (i * CHUNK_SIZE)
                 (min (i * CHUNK_SIZE + CHUNK_SIZE) (12 * 1024 * 1024)))) [0, 1, 2]
           = [5 * 1024 * 1024, 5 * 1024 * 1024, 2 * 1024 * 1024])"
proof -
  have c3: "ceil_div (length (replicate (12 * 1024 * 1024) (0 :: 8 word))) CHUNK_SIZE = 3"
    by (simp add: ceil_div_eq CHUNK_SIZE_def)
  have upt3: "[0..<3] = [0, 1, 2]" by (simp add: upt_rec)
  show ?thesis
    using uploadFile_chunk_split[of "replicate (12 * 1024 * 1024) (0 :: 8 word)" small_crypto
        "''uuid''" "''big.bin''" "\<lparr>next_id = 0, filed = []\<rparr>"]
    apply (simp only: c3)
    apply (simp add: upt3 buffer_slice_def CHUNK_SIZE_def)
    apply (elim exE conjE)
    subgoal for r w' by (rule exI[of _ r]) (simp add: upt3)
    done
qed

subsection \<open>The cipher of the runtime: decryption inverts encryption\<close>

lemma sbox_all: "list_all (\<lambda>n. inv_sub_byte (sub_byte (of_nat n)) = (of_nat n :: 8 word)) [0..<256]"
  by code_simp

lemma inv_sub_byte_sub_byte: "inv_sub_byte (sub_byte b) = b"
proof -
  have "unat b < 256" using unsigned_less[of b, where 'a = nat] by simp
  then have "unat b \<in> set [0..<256]" by simp
  with sbox_all have "inv_sub_byte (sub_byte (of_nat (unat b))) = (of_nat (unat b) :: 8 word)"
    unfolding list_all_iff by blast
  then show ?thesis by simp
qed

lemma InvSubBytes_SubBytes: "InvSubBytes (SubBytes st) = st"
  by (simp add: InvSubBytes_def SubBytes_def comp_def inv_sub_byte_sub_byte)

lemma xtime_xor: "xtime (a XOR b) = xtime a XOR xtime b"
  by (auto simp: xtime_def bit_xor_iff ac_simps)

lemma xor_cancel: "(a::8 word) XOR a = 0" "(a::8 word) XOR (a XOR b) = b"
  by (simp_all add: xor.assoc[symmetric])

lemma block16:
  assumes "length (st :: 'a list) = 16"
  obtains a0 a1 a2 a3 a4 a5 a6 a7 a8 a9 a10 a11 a12 a13 a14 a15
  where "st = [a0, a1, a2, a3, a4, a5, a6, a7, a8, a9, a10, a11, a12, a13, a14, a15]"
  using assms by (auto simp: eval_nat_numeral length_Suc_conv)

lemma InvShiftRows_ShiftRows: "length st = 16 \<Longrightarrow> InvShiftRows (ShiftRows st) = st"
  by (erule block16) (simp add: InvShiftRows_def ShiftRows_def byte_at_def)

lemma AddRoundKey_twice: "length st = 16 \<Longrightarrow> AddRoundKey w r (AddRoundKey w r st) = st"
  by (erule block16) (simp add: AddRoundKey_def byte_at_def xor.assoc)

lemma InvMixColumns_MixColumns: "length st = 16 \<Longrightarrow> InvMixColumns (MixColumns st) = st"
  apply (erule block16)
  apply (simp add: InvMixColumns_def MixColumns_def columns_def byte_at_def)
  apply (simp add: inv_mix_column_def mix_column_def mul3_def mul9_def mul11_def mul13_def mul14_def
      xtime_xor xor_cancel xor.assoc xor.commute xor.left_commute)
  done

lemma length_ops [simp]:
  "length (SubBytes st) = length st"
  "length (ShiftRows st) = 16"
  "length (MixColumns st) = 16"
  "length (AddRoundKey w r st) = 16"
  "length (xor_block x y) = 16"
  by (simp_all add: SubBytes_def ShiftRows_def MixColumns_def columns_def mix_column_def
      AddRoundKey_def xor_block_def)


lemma fold_regroup:
  "InvSubBytes (InvShiftRows (fold (inv_aes_round w) rs x))
     = fold (\<lambda>r st. InvSubBytes (InvShiftRows (InvMixColumns (AddRoundKey w r st)))) rs
         (InvSubBytes (InvShiftRows x))"
  by (induction rs arbitrary: x) (simp_all add: inv_aes_round_def)

lemma length_fold_round: "length st = 16 \<Longrightarrow> length (fold (aes_round w) rs st) = 16"
  by (induction rs arbitrary: st) (simp_all add: aes_round_def)

lemma undo_round:
  "length st = 16 \<Longrightarrow>
   InvSubBytes (InvShiftRows (InvMixColumns (AddRoundKey w r (aes_round w r st)))) = st"
  by (simp add: aes_round_def AddRoundKey_twice InvMixColumns_MixColumns InvShiftRows_ShiftRows
      InvSubBytes_SubBytes)

lemma undo_rounds:
  "length st = 16 \<Longrightarrow>
   fold (\<lambda>r st. InvSubBytes (InvShiftRows (InvMixColumns (AddRoundKey w r st)))) (rev rs)
     (fold (aes_round w) rs st) = st"
proof (induction rs arbitrary: st)
  case Nil
  then show ?case by simp
next
  case (Cons r rs)
  have "length (aes_round w r st) = 16" by (simp add: aes_round_def)
  from Cons.IH[OF this] show ?case using Cons.prems by (simp add: undo_round)
qed

lemma InvCipher_Cipher: "length b = 16 \<Longrightarrow> InvCipher w (Cipher w b) = b"
proof -
  assume b: "length b = 16"
  let ?y = "fold (aes_round w) [1..<14] (AddRoundKey w 0 b)"
  have y: "length ?y = 16" by (rule length_fold_round) simp
  have "InvCipher w (Cipher w b) =
      AddRoundKey w 0
        (fold (\<lambda>r st. InvSubBytes (InvShiftRows (InvMixColumns (AddRoundKey w r st)))) (rev [1..<14])
           (InvSubBytes (InvShiftRows (AddRoundKey w 14 (AddRoundKey w 14 (ShiftRows (SubBytes ?y)))))))"
    by (simp only: InvCipher_def Cipher_def fold_regroup)
  also have "AddRoundKey w 14 (AddRoundKey w 14 (ShiftRows (SubBytes ?y))) = ShiftRows (SubBytes ?y)"
    by (rule AddRoundKey_twice) simp
  also have "InvSubBytes (InvShiftRows (ShiftRows (SubBytes ?y))) = ?y"
    using y by (simp add: InvShiftRows_ShiftRows InvSubBytes_SubBytes)
  also have "fold (\<lambda>r st. InvSubBytes (InvShiftRows (InvMixColumns (AddRoundKey w r st)))) (rev [1..<14]) ?y
      = AddRoundKey w 0 b"
    by (rule undo_rounds) simp
  also have "AddRoundKey w 0 (AddRoundKey w 0 b) = b" using b by (rule AddRoundKey_twice)
  finally show ?thesis .
qed

lemma length_Cipher [simp]: "length (Cipher w b) = 16"
  by (simp add: Cipher_def)

lemma xor_block_twice: "length p = 16 \<Longrightarrow> xor_block (xor_block p v) v = p"
  by (erule block16) (simp add: xor_block_def byte_at_def xor.assoc)

lemma cbc_decrypt_encrypt:
  "\<forall>b\<in>set ps. length b = 16 \<Longrightarrow> cbc_decrypt w v (cbc_encrypt w v ps) = ps"
  by (induction ps arbitrary: v) (simp_all add: Let_def InvCipher_Cipher xor_block_twice)

lemma cbc_encrypt_blocks:
  "length (cbc_encrypt w v ps) = length ps \<and> (\<forall>c\<in>set (cbc_encrypt w v ps). length c = 16)"
  by (induction ps arbitrary: v) (simp_all add: Let_def)

lemma blocks_lengths: "\<forall>b\<in>set (blocks x). length b = 16"
proof
  fix b assume "b \<in> set (blocks x)"
  then obtain i where i: "i < length x div 16" "b = take 16 (drop (16 * i) x)"
    by (auto simp: blocks_def)
  have "16 * Suc i \<le> 16 * (length x div 16)" using i(1) by (intro mult_le_mono2) simp
  also have "\<dots> \<le> length x" by simp
  finally show "length b = 16" using i(2) by simp
qed

lemma concat_blocks: "length x mod 16 = 0 \<Longrightarrow> concat (blocks x) = x"
proof -
  assume m: "length x mod 16 = 0"
  have "length x div 16 * 16 = length x" using m by (simp add: mod_0_imp_dvd)
  then show ?thesis
    using concat_take_chunks[of 16 x "length x div 16"] by (simp add: blocks_def mult.commute)
qed

lemma blocks_append: "length b = 16 \<Longrightarrow> blocks (b @ rest) = b # blocks rest"
proof -
  assume b: "length b = 16"
  have d: "length (b @ rest) div 16 = Suc (length rest div 16)" using b by simp
  have u: "[0..<Suc (length rest div 16)] = 0 # map Suc [0..<length rest div 16]"
    by (simp add: upt_conv_Cons map_Suc_upt del: upt_Suc)
  show ?thesis
    unfolding blocks_def d u using b by (simp add: comp_def)
qed

lemma blocks_concat: "\<forall>b\<in>set bs. length b = 16 \<Longrightarrow> blocks (concat bs) = bs"
proof (induction bs)
  case Nil
  then show ?case by (simp add: blocks_def)
next
  case (Cons b bs)
  then show ?case by (simp add: blocks_append)
qed

lemma length_concat16: "\<forall>b\<in>set bs. length b = 16 \<Longrightarrow> length (concat bs) = 16 * length bs"
  by (induction bs) simp_all

lemma pad_length: "0 < 16 - length p mod 16" "16 - length p mod 16 \<le> 16"
  "length (pkcs7_pad p) mod 16 = 0" "pkcs7_pad p \<noteq> []"
proof -
  show "0 < 16 - length p mod 16" by simp
  show "16 - length p mod 16 \<le> 16" by simp
  have "length (pkcs7_pad p) = length p + (16 - length p mod 16)" by (simp add: pkcs7_pad_def)
  moreover have "(length p + (16 - length p mod 16)) mod 16 = 0" by presburger
  ultimately show "length (pkcs7_pad p) mod 16 = 0" by simp
  show "pkcs7_pad p \<noteq> []" by (simp add: pkcs7_pad_def)
qed

lemma pkcs7_unpad_pad: "pkcs7_unpad (pkcs7_pad p) = Inr p"
proof -
  define n where "n = 16 - length p mod 16"
  have n: "0 < n" "n \<le> 16" by (simp_all add: n_def)
  have pad: "pkcs7_pad p = p @ replicate n (of_nat n)" by (simp add: pkcs7_pad_def n_def)
  have l: "last (pkcs7_pad p) = (of_nat n :: 8 word)" using n by (simp add: pad)
  have u: "unat (of_nat n :: 8 word) = n" using n by (simp add: unat_of_nat)
  show ?thesis
    unfolding pkcs7_unpad_def l u Let_def using n by (simp add: pad list_all_iff)
qed

lemma decipher_cipher:
  "createDecipher_aes_256_cbc md5 password (createCipher_aes_256_cbc md5 password p) = Inr p"
proof -
  obtain key iv where k: "EVP_BytesToKey md5 (utf8 password) = (key, iv)"
    by (cases "EVP_BytesToKey md5 (utf8 password)")
  let ?ps = "blocks (pkcs7_pad p)"
  let ?cs = "cbc_encrypt (KeyExpansion key) iv ?ps"
  have ps: "\<forall>b\<in>set ?ps. length b = 16" by (rule blocks_lengths)
  have cs: "length ?cs = length ?ps" "\<forall>c\<in>set ?cs. length c = 16"
    using cbc_encrypt_blocks[of "KeyExpansion key" iv ?ps] by simp_all
  have "length ?ps = length (pkcs7_pad p) div 16" by (simp add: blocks_def)
  moreover have "16 \<le> length (pkcs7_pad p)"
    using pad_length(3,4)[of p] by (cases "length (pkcs7_pad p) < 16") auto
  ultimately have pos: "0 < length ?ps" by simp
  have len: "length (concat ?cs) = 16 * length ?ps" using length_concat16[OF cs(2)] cs(1) by simp
  have "0 < length (concat ?cs)" using len pos by simp
  then have ne: "concat ?cs \<noteq> []" by (metis length_greater_0_conv)
  have m16: "length (concat ?cs) mod 16 = 0" using len by simp
  have "pkcs7_unpad (concat (cbc_decrypt (KeyExpansion key) iv (blocks (concat ?cs)))) = Inr p"
    by (simp add: blocks_concat[OF cs(2)] cbc_decrypt_encrypt[OF ps] concat_blocks pad_length(3)
        pkcs7_unpad_pad)
  then show ?thesis
    using ne m16 by (simp add: createDecipher_aes_256_cbc_def createCipher_aes_256_cbc_def k)
qed

lemma node_openssl_inverse:
  "decipher (node_openssl sha256 md5 num env_secret) key
     (cipher (node_openssl sha256 md5 num env_secret) key p) = Inr p"
  by (simp add: node_openssl_def decipher_cipher)

subsection \<open>Round trip\<close>

text \<open>The round trip over the storing backend for any crypto library whose decipher
  inverts its cipher.\<close>

lemma roundtrip_of_inverse:
  assumes ok: "\<forall>key p. decipher L key (cipher L key p) = Inr p"
  shows "\<exists>r w'. uploadFile L telegram_store fid buf name w = (Inr r, w')
           \<and> totalChunks r = max 1 (ceil_div (length buf) CHUNK_SIZE)
           \<and> length (chunks r) = totalChunks r
           \<and> downloadFileByChunks L telegram_store (telegramStorageId r) (chunks r) w' = (Inr buf, w')
           \<and> (\<forall>p k. decryptChunk L (encryptChunk L p k) k = Inr p)"
proof -
  define n where "n = max 1 (ceil_div (length buf) CHUNK_SIZE)"
  define r where "r = \<lparr> telegramStorageId = fid,
            chunks = map (descriptor L fid buf (next_id w)) [0..<n], totalChunks = n \<rparr>"
  define w' where "w' = w\<lparr> next_id := next_id w + n,
         filed := rev (map (store_entry L fid buf (next_id w)) [0..<n]) @ filed w \<rparr>"
  have up: "uploadFile L telegram_store fid buf name w = (Inr r, w')"
    unfolding r_def w'_def by (rule uploadFile_store) (simp add: n_def)
  have ok': "\<And>key p. decipher L key (cipher L key p) = Inr p" using ok by simp
  have fw: "filed w' = rev (map (store_entry L fid buf (next_id w)) [0..<n]) @ filed w"
    by (simp add: w'_def)
  have srt: "sort_key chunkIndex (map (descriptor L fid buf (next_id w)) [0..<n])
        = map (descriptor L fid buf (next_id w)) [0..<n]"
    by (rule sort_key_id_if_sorted) (simp add: descriptor_def comp_def sorted_map)
  have loop: "download_loop L telegram_store fid (map (descriptor L fid buf (next_id w)) [0..<n]) [] w'
       = (Inr ([] @ map (chunk_bytes buf) [0..<n]), w')"
    by (rule download_loop_store[OF ok' fw]) simp
  have "length buf \<le> n * CHUNK_SIZE"
    using ceil_div_covers[of CHUNK_SIZE "length buf"]
    by (simp add: n_def CHUNK_SIZE_def max_def split: if_splits)
  then have cc: "concat (map (chunk_bytes buf) [0..<n]) = buf" by (rule concat_chunk_bytes)
  have dl: "downloadFileByChunks L telegram_store (telegramStorageId r) (chunks r) w' = (Inr buf, w')"
    by (simp add: downloadFileByChunks_def r_def srt loop cc)
  have tc: "totalChunks r = max 1 (ceil_div (length buf) CHUNK_SIZE)" "length (chunks r) = totalChunks r"
    by (simp_all add: r_def n_def)
  have inv: "\<forall>p k. decryptChunk L (encryptChunk L p k) k = Inr p"
    using ok by (simp add: decryptChunk_def encryptChunk_def)
  from up tc dl inv show ?thesis by blast
qed

text \<open>
  C1. Round trip: with the runtime's cipher (AES-256-CBC, key and IV derived from the
  password) and the backend that returns what it was sent, \<open>uploadFile\<close> succeeds on
  every buffer, splitting it into \<open>max 1 (ceil (length / CHUNK_SIZE))\<close> chunks, and
  \<open>downloadFileByChunks\<close>, given the returned \<open>telegramStorageId\<close> and \<open>chunks\<close>, returns
  the buffer unchanged; and \<open>decryptChunk\<close> undoes \<open>encryptChunk\<close> under the same key,
  for every plaintext and key. The digests, the printing of large numbers and the secret
  are arbitrary.
\<close>

theorem upload_download_roundtrip:
  "\<exists>r w'. uploadFile (node_openssl sha256 md5 num env_secret) telegram_store fid buf name w = (Inr r, w')
      \<and> totalChunks r = max 1 (ceil_div (length buf) CHUNK_SIZE)
      \<and> length (chunks r) = totalChunks r
      \<and> downloadFileByChunks (node_openssl sha256 md5 num env_secret) telegram_store
            (telegramStorageId r) (chunks r) w' = (Inr buf, w')
      \<and> (\<forall>p k. decryptChunk (node_openssl sha256 md5 num env_secret)
                   (encryptChunk (node_openssl sha256 md5 num env_secret) p k) k = Inr p)"
  by (rule roundtrip_of_inverse) (simp add: node_openssl_inverse)

text \<open>An instance with two chunks: a buffer one byte longer than \<open>CHUNK_SIZE\<close>, with
  stand-ins for the two digests.\<close>

theorem upload_download_roundtrip_witness:
  "\<exists>r w'. uploadFile (node_openssl (\<lambda>b. concat (map hex_byte b)) (take 16) (\<lambda>i. ''NaN'') (Some ''s3cret''))
              telegram_store ''uuid'' (replicate (CHUNK_SIZE + 1) 7) ''big.bin''
              \<lparr>next_id = 0, filed = []\<rparr> = (Inr r, w')
      \<and> totalChunks r = 2
      \<and> length (chunks r) = 2
      \<and> downloadFileByChunks (node_openssl (\<lambda>b. concat (map hex_byte b)) (take 16) (\<lambda>i. ''NaN'') (Some ''s3cret''))
            telegram_store (telegramStorageId r) (chunks r) w' = (Inr (replicate (CHUNK_SIZE + 1) 7), w')"
proof -
  have "ceil_div (CHUNK_SIZE + 1) CHUNK_SIZE = 2"
    by (rule ceil_div_unique) (simp_all add: CHUNK_SIZE_def)
  then have two: "max 1 (ceil_div (length (replicate (CHUNK_SIZE + 1) (7 :: 8 word))) CHUNK_SIZE) = 2"
    by simp
  from upload_download_roundtrip [of "\<lambda>b. concat (map hex_byte b)" "take 16" "\<lambda>i. ''NaN''"
      "Some ''s3cret''" "''uuid''" "replicate (CHUNK_SIZE + 1) 7" "''big.bin''"
      "\<lparr>next_id = 0, filed = []\<rparr>"]
  obtain r w' where
    "uploadFile (node_openssl (\<lambda>b. concat (map hex_byte b)) (take 16) (\<lambda>i. ''NaN'') (Some ''s3cret''))
              telegram_store ''uuid'' (replicate (CHUNK_SIZE + 1) 7) ''big.bin''
              \<lparr>next_id = 0, filed = []\<rparr> = (Inr r, w')"
    "totalChunks r = max 1 (ceil_div (length (replicate (CHUNK_SIZE + 1) (7 :: 8 word))) CHUNK_SIZE)"
    "length (chunks r) = totalChunks r"
    "downloadFileByChunks (node_openssl (\<lambda>b. concat (map hex_byte b)) (take 16) (\<lambda>i. ''NaN'') (Some ''s3cret''))
            telegram_store (telegramStorageId r) (chunks r) w' = (Inr (replicate (CHUNK_SIZE + 1) 7), w')"
    by blast
  then show ?thesis unfolding two by (intro exI[of _ r] exI[of _ w']) simp
qed

subsection \<open>Integrity\<close>

lemma download_try_state:
  "download_try L telegram_store fid c t w = (x, w') \<Longrightarrow> w' = w"
  by (auto simp: download_try_def telegram_store_def Let_def split: option.splits prod.splits sum.splits if_splits)

lemma download_loop_state:
  "download_loop L telegram_store fid cs acc w = (x, w') \<Longrightarrow> w' = w"
proof (induction cs arbitrary: acc)
  case Nil
  then show ?case by simp
next
  case (Cons c cs)
  then show ?case
    by (auto split: option.splits if_splits prod.splits sum.splits dest: download_try_state)
qed

lemma download_try_mismatch:
  assumes "stored_bytes w t = Some e" "sha256_hex L e \<noteq> encryptedHash c"
  shows "download_try L telegram_store fid c t w =
     (Inl (case decryptChunk L e (generateEncryptionKey L fid (chunkIndex c)) of
             Inl d \<Rightarrow> d | Inr p \<Rightarrow> IntegrityCheckFailed (chunkIndex c)), w)"
  using assms
  by (auto simp: stored_bytes_def download_try_def telegram_store_def Let_def
      split: option.splits if_splits sum.splits)

lemma download_loop_append:
  "download_loop L B fid (pre @ rest) acc w =
     (case download_loop L B fid pre acc w of
        (Inl e, w') \<Rightarrow> (Inl e, w')
      | (Inr bufs, w') \<Rightarrow> download_loop L B fid rest bufs w')"
proof (induction pre arbitrary: acc w)
  case Nil
  then show ?case by simp
next
  case (Cons x pre)
  show ?case
  proof (cases "fileId x")
    case None
    then show ?thesis by simp
  next
    case (Some tx)
    show ?thesis
    proof (cases "tx = []")
      case True
      then show ?thesis using Some by simp
    next
      case False
      obtain res w1 where dt: "download_try L B fid x tx w = (res, w1)"
        by (cases "download_try L B fid x tx w")
      show ?thesis
      proof (cases res)
        case (Inl err)
        then show ?thesis using Some False dt by simp
      next
        case (Inr p)
        then show ?thesis using Some False dt Cons.IH[of "acc @ [p]" w1] by simp
      qed
    qed
  qed
qed

lemma download_loop_first_failure:
  assumes "fileId c = Some t" "stored_bytes w t = Some e" "sha256_hex L e \<noteq> encryptedHash c"
  shows "sorted (map chunkIndex xs) \<Longrightarrow> c \<in> set xs \<Longrightarrow>
     \<exists>c' err. c' \<in> set xs \<and> chunkIndex c' \<le> chunkIndex c
        \<and> download_loop L telegram_store fid xs acc w = (Inl err, w)
        \<and> (err = MissingFileId (chunkIndex c') \<or> (\<exists>d. err = FailedToDownloadChunk (chunkIndex c') d))"
proof (induction xs arbitrary: acc)
  case Nil
  then show ?case by simp
next
  case (Cons x xs)
  have le: "chunkIndex x \<le> chunkIndex c" using Cons.prems by auto
  have here: "\<exists>c' err. c' \<in> set (x # xs) \<and> chunkIndex c' \<le> chunkIndex c
        \<and> download_loop L telegram_store fid (x # xs) acc w = (Inl err, w)
        \<and> (err = MissingFileId (chunkIndex c') \<or> (\<exists>d. err = FailedToDownloadChunk (chunkIndex c') d))"
    if "download_loop L telegram_store fid (x # xs) acc w = (Inl err, w)"
      "err = MissingFileId (chunkIndex x) \<or> (\<exists>d. err = FailedToDownloadChunk (chunkIndex x) d)" for err
    using that le by (intro exI[of _ x] exI[of _ err]) simp
  show ?case
  proof (cases "fileId x")
    case None
    show ?thesis by (rule here[of "MissingFileId (chunkIndex x)"]) (simp_all add: None)
  next
    case (Some tx)
    show ?thesis
    proof (cases "tx = []")
      case True
      show ?thesis by (rule here[of "MissingFileId (chunkIndex x)"]) (simp_all add: Some True)
    next
      case False
      obtain res w' where dt: "download_try L telegram_store fid x tx w = (res, w')"
        by (cases "download_try L telegram_store fid x tx w")
      then have w': "w' = w" by (rule download_try_state)
      show ?thesis
      proof (cases res)
        case (Inl d)
        show ?thesis
          by (rule here[of "FailedToDownloadChunk (chunkIndex x) d"]) (simp_all add: Some False dt w' Inl)
      next
        case (Inr p)
        have "x \<noteq> c"
        proof
          assume "x = c"
          then have "tx = t" using Some assms(1) by simp
          then show False
            using download_try_mismatch[OF assms(2,3), of fid] dt Inr \<open>x = c\<close> by simp
        qed
        then have "c \<in> set xs" using Cons.prems by auto
        moreover have "sorted (map chunkIndex xs)" using Cons.prems by simp
        ultimately obtain c' err where
          r: "c' \<in> set xs" "chunkIndex c' \<le> chunkIndex c"
             "download_loop L telegram_store fid xs (acc @ [p]) w = (Inl err, w)"
             "err = MissingFileId (chunkIndex c') \<or> (\<exists>d. err = FailedToDownloadChunk (chunkIndex c') d)"
          using Cons.IH[of "acc @ [p]"] by blast
        show ?thesis
          using r by (intro exI[of _ c'] exI[of _ err]) (simp add: Some False dt w' Inr)
      qed
    qed
  qed
qed

text \<open>
  C2 (as amended). Integrity detection: \<open>downloadFileByChunks\<close> decrypts the downloaded
  bytes and then compares their SHA-256 hex digest with the descriptor's
  \<open>encryptedHash\<close>. Let the bytes stored for a descriptor \<open>c\<close> of the list not hash to its
  \<open>encryptedHash\<close>. Then the download returns an error and no bytes, and the error names
  a descriptor of the list whose index is at most that of \<open>c\<close>. And whenever the
  descriptors sorted before \<open>c\<close> download without error, the error is exactly
  \<open>Failed to download chunk i\<close> for the index \<open>i\<close> of \<open>c\<close>, wrapping the integrity
  failure of chunk \<open>i\<close> if the decipher accepted the bytes and the decipher's own error
  if it threw.
\<close>

theorem integrity_mismatch_fails:
  assumes "c \<in> set cs" and "fileId c = Some t" and "t \<noteq> []"
    and "stored_bytes w t = Some e" and "sha256_hex L e \<noteq> encryptedHash c"
  shows "(\<exists>c' err. c' \<in> set cs \<and> chunkIndex c' \<le> chunkIndex c
            \<and> downloadFileByChunks L telegram_store fid cs w = (Inl err, w)
            \<and> (err = MissingFileId (chunkIndex c')
                 \<or> (\<exists>d. err = FailedToDownloadChunk (chunkIndex c') d)))
     \<and> (\<forall>pre post bufs.
           sort_key chunkIndex cs = pre @ c # post
           \<and> download_loop L telegram_store fid pre [] w = (Inr bufs, w)
           \<longrightarrow> downloadFileByChunks L telegram_store fid cs w =
                 (Inl (FailedToDownloadChunk (chunkIndex c)
                         (case decryptChunk L e (generateEncryptionKey L fid (chunkIndex c)) of
                            Inl d \<Rightarrow> d
                          | Inr p \<Rightarrow> IntegrityCheckFailed (chunkIndex c))), w))"
proof -
  have "c \<in> set (sort_key chunkIndex cs)" "sorted (map chunkIndex (sort_key chunkIndex cs))"
    using assms(1) by simp_all
  from download_loop_first_failure[OF assms(2,4,5) this(2,1), of fid "[]"]
  obtain c' err where
    r: "c' \<in> set (sort_key chunkIndex cs)" "chunkIndex c' \<le> chunkIndex c"
       "download_loop L telegram_store fid (sort_key chunkIndex cs) [] w = (Inl err, w)"
       "err = MissingFileId (chunkIndex c') \<or> (\<exists>d. err = FailedToDownloadChunk (chunkIndex c') d)"
    by blast
  have a: "\<exists>c' err. c' \<in> set cs \<and> chunkIndex c' \<le> chunkIndex c
            \<and> downloadFileByChunks L telegram_store fid cs w = (Inl err, w)
            \<and> (err = MissingFileId (chunkIndex c')
                 \<or> (\<exists>d. err = FailedToDownloadChunk (chunkIndex c') d))"
    using r by (intro exI[of _ c'] exI[of _ err]) (simp add: downloadFileByChunks_def)
  have b: "downloadFileByChunks L telegram_store fid cs w =
                 (Inl (FailedToDownloadChunk (chunkIndex c)
                         (case decryptChunk L e (generateEncryptionKey L fid (chunkIndex c)) of
                            Inl d \<Rightarrow> d
                          | Inr p \<Rightarrow> IntegrityCheckFailed (chunkIndex c))), w)"
    if s: "sort_key chunkIndex cs = pre @ c # post"
      and p: "download_loop L telegram_store fid pre [] w = (Inr bufs, w)" for pre post bufs
  proof -
    have "download_loop L telegram_store fid (c # post) bufs w =
            (Inl (FailedToDownloadChunk (chunkIndex c)
                         (case decryptChunk L e (generateEncryptionKey L fid (chunkIndex c)) of
                            Inl d \<Rightarrow> d
                          | Inr p \<Rightarrow> IntegrityCheckFailed (chunkIndex c))), w)"
      using assms(2,3) download_try_mismatch[OF assms(4,5), of fid] by simp
    then show ?thesis
      by (simp add: downloadFileByChunks_def s download_loop_append[of _ _ _ pre] p)
  qed
  from a b show ?thesis by blast
qed

text \<open>Unfolding the definitions on the concrete stores.\<close>

lemmas evals = small_crypto_def sole_chunk_def altered_store_def garbled_store_def hex_byte_def stored_bytes_def lookup_id_def lookup_path_def
      downloadFileByChunks_def download_try_def telegram_store_def decryptChunk_def generateEncryptionKey_def
      show_int_def decimal.simps utf8_def first_chunk_def second_chunk_def second_altered_store_def

text \<open>The witness: two descriptors given out of order, the bytes of the second chunk
  altered; the first chunk downloads, and the error names chunk 1.\<close>

theorem integrity_mismatch_fails_witness:
  "second_chunk \<in> set [second_chunk, first_chunk] \<and> fileId second_chunk = Some ''doc+'' \<and> ''doc+'' \<noteq> []
   \<and> stored_bytes second_altered_store ''doc+'' = Some [30, 1]
   \<and> sha256_hex small_crypto [30, 1] \<noteq> encryptedHash second_chunk
   \<and> sort_key chunkIndex [second_chunk, first_chunk] = [first_chunk] @ second_chunk # []
   \<and> download_loop small_crypto telegram_store ''uuid'' [first_chunk] [] second_altered_store
        = (Inr [[1, 2]], second_altered_store)
   \<and> downloadFileByChunks small_crypto telegram_store ''uuid'' [second_chunk, first_chunk] second_altered_store
       = (Inl (FailedToDownloadChunk 1 (IntegrityCheckFailed 1)), second_altered_store)"
proof -
  have 1: "second_chunk \<in> set [second_chunk, first_chunk]" by simp
  have 2: "fileId second_chunk = Some ''doc+''" by (simp add: second_chunk_def)
  have 3: "''doc+'' \<noteq> []" by simp
  have 4: "stored_bytes second_altered_store ''doc+'' = Some [30, 1]" by (simp add: evals)
  have 5: "sha256_hex small_crypto [30, 1] \<noteq> encryptedHash second_chunk" by (simp add: evals)
  have 6: "decryptChunk small_crypto [30, 1] (generateEncryptionKey small_crypto ''uuid'' 1) = Inr [4]"
    by (simp add: evals)
  have 7: "sort_key chunkIndex [second_chunk, first_chunk] = [first_chunk] @ second_chunk # []"
    by (simp add: first_chunk_def second_chunk_def)
  have 8: "download_loop small_crypto telegram_store ''uuid'' [first_chunk] [] second_altered_store
        = (Inr [[1, 2]], second_altered_store)"
    by (simp add: evals)
  have 9: "chunkIndex second_chunk = 1" by (simp add: second_chunk_def)
  note run = integrity_mismatch_fails [OF 1 2 3 4 5, of "''uuid''", THEN conjunct2, rule_format,
      OF conjI, OF 7 8]
  have 10: "downloadFileByChunks small_crypto telegram_store ''uuid'' [second_chunk, first_chunk] second_altered_store
       = (Inl (FailedToDownloadChunk 1 (IntegrityCheckFailed 1)), second_altered_store)"
    using run by (simp only: 6 9 sum.case)
  show ?thesis
    by (intro conjI) (rule 1 2 3 4 5 7 8 10)+
qed

text \<open>
  The claim C2 as stated fails: with the padding byte of the stored chunk altered the
  digest differs from \<open>encryptedHash\<close>, and the download fails with the decipher's error,
  raised before the digest is compared, not with the integrity error.
\<close>

theorem decrypt_error_before_hash_check:
  "sha256_hex small_crypto [27, 28, 29, 0] \<noteq> encryptedHash sole_chunk
   \<and> stored_bytes altered_store ''doc'' = Some [27, 28, 29, 0]
   \<and> downloadFileByChunks small_crypto telegram_store ''uuid'' [sole_chunk] altered_store
       = (Inl (FailedToDownloadChunk 0 (Thrown ''bad decrypt'')), altered_store)"
  by (simp add: evals)

subsection \<open>Retry budget\<close>

lemma quiet_cases: "(\<forall>t. \<not> aborted sig t) \<longleftrightarrow> sig = NoSignal \<or> sig = Signal None"
proof (cases sig)
  case NoSignal then show ?thesis by simp
next
  case (Signal x)
  then show ?thesis by (cases x) auto
qed

lemma one_attempt_retryable:
  assumes "\<forall>t. \<not> aborted sig t" "outcome N attempt = Settles d r" "d \<le> timeoutMs"
    "\<not> ok r" "status r \<in> set retryStatuses"
  shows "one_attempt N sig timeoutMs retryStatuses retries baseDelayMs attempt now tr =
     (if attempt = retries then Finished (Inr r) (now + d) (tr @ [Request attempt now])
      else (let ms = min (case retryAfter r of Seconds v \<Rightarrow> max (backoff baseDelayMs attempt (jitter_try N attempt)) (v * 1000)
                             | _ \<Rightarrow> backoff baseDelayMs attempt (jitter_try N attempt)) 15000
            in Continue (now + d + ms) (tr @ [Request attempt now, Sleep (now + d) ms (now + d + ms)])))"
  using assms unfolding quiet_cases
  by (auto simp: one_attempt_def fetch_at_def sleep_at_def Let_def)

lemma retry_loop_retryable:
  assumes quiet: "\<forall>t. \<not> aborted sig t"
    and all: "\<forall>k\<le>retries. \<exists>d r. outcome N k = Settles d r \<and> d \<le> timeoutMs \<and> \<not> ok r \<and> status r \<in> set retryStatuses"
  shows "retries - attempt = n \<Longrightarrow> attempt \<le> retries \<Longrightarrow>
     \<exists>r d t tr'. retry_loop N sig timeoutMs retryStatuses retries baseDelayMs attempt now tr = (Inr r, t, tr')
        \<and> outcome N retries = Settles d r
        \<and> length (requests tr') = length (requests tr) + Suc (retries - attempt)"
proof (induction n arbitrary: attempt now tr)
  case 0
  then have eq: "attempt = retries" by simp
  from all obtain d r where o: "outcome N retries = Settles d r" "d \<le> timeoutMs" "\<not> ok r" "status r \<in> set retryStatuses"
    by blast
  show ?case
    apply (subst retry_loop.simps)
    using o by (simp add: eq one_attempt_retryable[OF quiet o(1)[folded eq] o(2-4), unfolded eq] requests_def)
next
  case (Suc n)
  then have lt: "attempt < retries" by simp
  from all lt obtain d r where o: "outcome N attempt = Settles d r" "d \<le> timeoutMs" "\<not> ok r" "status r \<in> set retryStatuses"
    by (meson less_imp_le)
  obtain t1 tr1 where st: "one_attempt N sig timeoutMs retryStatuses retries baseDelayMs attempt now tr = Continue t1 tr1"
    and rq: "length (requests tr1) = Suc (length (requests tr))"
    using lt by (simp add: one_attempt_retryable[OF quiet o] Let_def requests_def)
  have "\<exists>r d t tr'. retry_loop N sig timeoutMs retryStatuses retries baseDelayMs (Suc attempt) t1 tr1 = (Inr r, t, tr')
        \<and> outcome N retries = Settles d r
        \<and> length (requests tr') = length (requests tr1) + Suc (retries - Suc attempt)"
    using Suc.prems lt by (intro Suc.IH) auto
  then show ?case
    apply (subst retry_loop.simps)
    using lt by (auto simp: st rq)
qed


lemma one_attempt_permanent:
  assumes "\<not> aborted sig (now + d)" "outcome N attempt = Settles d r" "d \<le> timeoutMs"
    "\<not> ok r" "status r \<notin> set retryStatuses"
  shows "one_attempt N sig timeoutMs retryStatuses retries baseDelayMs attempt now tr =
     Finished (Inr r) (now + d) (tr @ [Request attempt now])"
proof (cases sig)
  case NoSignal
  then show ?thesis using assms by (simp add: one_attempt_def fetch_at_def)
next
  case (Signal x)
  then show ?thesis using assms by (cases x) (auto simp: one_attempt_def fetch_at_def)
qed

text \<open>
  C3. Retry budget: when the caller's signal is never aborted and every attempt is
  answered in time by a non-OK response whose status is in \<open>retryStatuses\<close>,
  \<open>fetchWithRetry\<close> issues exactly \<open>retries + 1\<close> requests and returns the last response;
  when the first response is non-OK with a status outside \<open>retryStatuses\<close> it is returned
  after that one request; and with the defaults (4 retries, statuses 429, 500, 502, 503,
  504) \<open>downloadFile\<close> throws after exactly 5 requests.
\<close>

theorem retry_budget:
  "((\<forall>t. \<not> aborted sig t) \<and>
    (\<forall>k\<le>retries. \<exists>d r. outcome N k = Settles d r \<and> d \<le> timeoutMs \<and> \<not> ok r
        \<and> status r \<in> set retryStatuses)
    \<longrightarrow> (\<exists>r d t tr. fetchWithRetry N sig timeoutMs retryStatuses retries baseDelayMs now = (Inr r, t, tr)
           \<and> outcome N retries = Settles d r \<and> \<not> ok r
           \<and> length (requests tr) = retries + 1))
   \<and> (\<not> aborted sig (now + d0) \<and> outcome N 0 = Settles d0 r0 \<and> d0 \<le> timeoutMs \<and> \<not> ok r0
        \<and> status r0 \<notin> set retryStatuses
    \<longrightarrow> fetchWithRetry N sig timeoutMs retryStatuses retries baseDelayMs now
          = (Inr r0, now + d0, [Request 0 now]))
   \<and> ((\<forall>k\<le>default_retries. \<exists>d r. outcome N k = Settles d r \<and> d \<le> 60000 \<and> \<not> ok r
          \<and> status r \<in> set default_retryStatuses)
    \<longrightarrow> (\<exists>msg t tr. downloadFile_request N now = (Inl (Thrown msg), t, tr)
           \<and> length (requests tr) = 5))"
proof (intro conjI impI)
  assume a: "(\<forall>t. \<not> aborted sig t) \<and>
    (\<forall>k\<le>retries. \<exists>d r. outcome N k = Settles d r \<and> d \<le> timeoutMs \<and> \<not> ok r
        \<and> status r \<in> set retryStatuses)"
  then have "\<exists>r d t tr'. retry_loop N sig timeoutMs retryStatuses retries baseDelayMs 0 now [] = (Inr r, t, tr')
        \<and> outcome N retries = Settles d r
        \<and> length (requests tr') = length (requests []) + Suc (retries - 0)"
    by (intro retry_loop_retryable) auto
  then obtain r d t tr' where *: "retry_loop N sig timeoutMs retryStatuses retries baseDelayMs 0 now [] = (Inr r, t, tr')"
        "outcome N retries = Settles d r" "length (requests tr') = Suc retries"
    by (auto simp: requests_def)
  moreover have "\<not> ok r" using a *(2) by (metis le_refl met.inject(1))
  ultimately show "\<exists>r d t tr. fetchWithRetry N sig timeoutMs retryStatuses retries baseDelayMs now = (Inr r, t, tr)
           \<and> outcome N retries = Settles d r \<and> \<not> ok r
           \<and> length (requests tr) = retries + 1"
    by (auto simp: fetchWithRetry_def)
next
  assume "\<not> aborted sig (now + d0) \<and> outcome N 0 = Settles d0 r0 \<and> d0 \<le> timeoutMs \<and> \<not> ok r0
        \<and> status r0 \<notin> set retryStatuses"
  then have "one_attempt N sig timeoutMs retryStatuses retries baseDelayMs 0 now [] =
     Finished (Inr r0) (now + d0) ([] @ [Request 0 now])"
    by (intro one_attempt_permanent) auto
  then show "fetchWithRetry N sig timeoutMs retryStatuses retries baseDelayMs now
          = (Inr r0, now + d0, [Request 0 now])"
    by (simp add: fetchWithRetry_def retry_loop.simps[of _ _ _ _ _ _ 0])
next
  assume a: "\<forall>k\<le>default_retries. \<exists>d r. outcome N k = Settles d r \<and> d \<le> 60000 \<and> \<not> ok r
          \<and> status r \<in> set default_retryStatuses"
  have "\<exists>r d t tr'. retry_loop N NoSignal 60000 default_retryStatuses default_retries default_baseDelayMs 0 now [] = (Inr r, t, tr')
        \<and> outcome N default_retries = Settles d r
        \<and> length (requests tr') = length (requests []) + Suc (default_retries - 0)"
    using a by (intro retry_loop_retryable) auto
  then obtain r d t tr' where *: "retry_loop N NoSignal 60000 default_retryStatuses default_retries default_baseDelayMs 0 now [] = (Inr r, t, tr')"
        "outcome N default_retries = Settles d r" "length (requests tr') = Suc default_retries"
    by (auto simp: requests_def)
  moreover have "\<not> ok r" using a *(2) by (metis le_refl met.inject(1))
  ultimately show "\<exists>msg t tr. downloadFile_request N now = (Inl (Thrown msg), t, tr)
           \<and> length (requests tr) = 5"
    by (auto simp: downloadFile_request_def fetchWithRetry_def default_retries_def)
qed



theorem retry_budget_witness:
  "(\<forall>t. \<not> aborted NoSignal t)
   \<and> (\<forall>k. \<exists>d r. outcome always_503 k = Settles d r \<and> d \<le> 60000 \<and> \<not> ok r
          \<and> status r \<in> set default_retryStatuses)
   \<and> (\<exists>r d t tr. fetchWithRetry always_503 NoSignal 60000 default_retryStatuses default_retries
                    default_baseDelayMs 0 = (Inr r, t, tr)
          \<and> outcome always_503 default_retries = Settles d r \<and> \<not> ok r
          \<and> length (requests tr) = 5)
   \<and> (\<exists>msg t tr. downloadFile_request always_503 0 = (Inl (Thrown msg), t, tr)
          \<and> length (requests tr) = 5)
   \<and> \<not> aborted NoSignal (0 + 10)
   \<and> outcome always_404 0 = Settles 10 \<lparr> status = 404, retryAfter = Absent,
                      statusText = ''Not Found'', body = [] \<rparr>
   \<and> fetchWithRetry always_404 NoSignal 60000 default_retryStatuses default_retries
        default_baseDelayMs 0
       = (Inr \<lparr> status = 404, retryAfter = Absent, statusText = ''Not Found'', body = [] \<rparr>,
          10, [Request 0 0])"
proof -
  have h1: "\<forall>t. \<not> aborted NoSignal t" by simp
  have h2: "\<forall>k. \<exists>d r. outcome always_503 k = Settles d r \<and> d \<le> 60000 \<and> \<not> ok r
          \<and> status r \<in> set default_retryStatuses"
    by (simp add: always_503_def ok_def default_retryStatuses_def)
  have h3: "\<not> aborted NoSignal (0 + 10) \<and> outcome always_404 0 = Settles 10 \<lparr> status = 404, retryAfter = Absent,
                      statusText = ''Not Found'', body = [] \<rparr> \<and> (10::nat) \<le> 60000
        \<and> \<not> ok \<lparr> status = 404, retryAfter = Absent, statusText = ''Not Found'', body = [] \<rparr>
        \<and> status \<lparr> status = 404, retryAfter = Absent, statusText = ''Not Found'', body = [] \<rparr>
             \<notin> set default_retryStatuses"
    by (simp add: always_404_def ok_def default_retryStatuses_def)
  show ?thesis
    using h1 h2 h3
      retry_budget [where N = always_503 and sig = NoSignal and timeoutMs = 60000
        and retryStatuses = default_retryStatuses and retries = default_retries
        and baseDelayMs = default_baseDelayMs and now = 0]
      retry_budget [where N = always_404 and sig = NoSignal and timeoutMs = 60000
        and retryStatuses = default_retryStatuses and retries = default_retries
        and baseDelayMs = default_baseDelayMs and now = 0 and ?d0.0 = 10
        and ?r0.0 = "\<lparr> status = 404, retryAfter = Absent, statusText = ''Not Found'', body = [] \<rparr>"]
    by (simp add: default_retries_def)
qed

subsection \<open>Cancellation\<close>

lemma one_attempt_preaborted:
  "a \<le> now \<Longrightarrow> one_attempt N (Signal (Some a)) timeoutMs retryStatuses retries baseDelayMs attempt now tr
      = Finished (Inl (AbortError ''This operation was aborted'')) now tr"
  by (simp add: one_attempt_def fetch_at_def catch_block_def)

lemma one_attempt_time:
  "now \<le> time_of (one_attempt N (Signal None) timeoutMs retryStatuses retries baseDelayMs attempt now tr)"
  by (auto simp: one_attempt_def fetch_at_def catch_block_def sleep_at_def Let_def
      split: met.splits retry_after.splits)

lemma retry_loop_time:
  "Suc retries - attempt = n \<Longrightarrow>
   now \<le> fst (snd (retry_loop N (Signal None) timeoutMs retryStatuses retries baseDelayMs attempt now tr))"
proof (induction n arbitrary: attempt now tr)
  case 0
  then show ?case by (simp add: retry_loop.simps)
next
  case (Suc n)
  then have le: "attempt \<le> retries" by simp
  show ?case
  proof (cases "one_attempt N (Signal None) timeoutMs retryStatuses retries baseDelayMs attempt now tr")
    case (Continue t tr')
    have "now \<le> t" using one_attempt_time[of now N timeoutMs retryStatuses retries baseDelayMs attempt tr] Continue by simp
    moreover have "t \<le> fst (snd (retry_loop N (Signal None) timeoutMs retryStatuses retries baseDelayMs (Suc attempt) t tr'))"
      using Suc.prems by (intro Suc.IH) simp
    ultimately show ?thesis
      by (subst retry_loop.simps) (simp add: le Continue)
  next
    case (Finished r t tr')
    have "now \<le> t" using one_attempt_time[of now N timeoutMs retryStatuses retries baseDelayMs attempt tr] Finished by simp
    then show ?thesis by (subst retry_loop.simps) (simp add: le Finished)
  qed
qed

lemma one_attempt_cut:
  assumes "now < a"
  shows "(time_of (one_attempt N (Signal None) timeoutMs retryStatuses retries baseDelayMs attempt now tr) < a
            \<longrightarrow> one_attempt N (Signal (Some a)) timeoutMs retryStatuses retries baseDelayMs attempt now tr
                = one_attempt N (Signal None) timeoutMs retryStatuses retries baseDelayMs attempt now tr)
       \<and> (a \<le> time_of (one_attempt N (Signal None) timeoutMs retryStatuses retries baseDelayMs attempt now tr)
            \<longrightarrow> one_attempt N (Signal (Some a)) timeoutMs retryStatuses retries baseDelayMs attempt now tr
                  = one_attempt N (Signal None) timeoutMs retryStatuses retries baseDelayMs attempt now tr
                    \<and> time_of (one_attempt N (Signal None) timeoutMs retryStatuses retries baseDelayMs attempt now tr) = a
                \<or> (\<exists>e tr'. one_attempt N (Signal (Some a)) timeoutMs retryStatuses retries baseDelayMs attempt now tr
                  = Finished (Inl e) a tr'))"
  using assms
  by (auto simp: one_attempt_def fetch_at_def catch_block_def sleep_at_def Let_def min_def
      split: met.splits retry_after.splits)


lemma retry_loop_cut:
  assumes "now < a"
  shows "Suc retries - attempt = n \<Longrightarrow>
    (fst (snd (retry_loop N (Signal None) timeoutMs retryStatuses retries baseDelayMs attempt now tr)) < a
       \<longrightarrow> retry_loop N (Signal (Some a)) timeoutMs retryStatuses retries baseDelayMs attempt now tr
           = retry_loop N (Signal None) timeoutMs retryStatuses retries baseDelayMs attempt now tr)
    \<and> (a < fst (snd (retry_loop N (Signal None) timeoutMs retryStatuses retries baseDelayMs attempt now tr))
       \<longrightarrow> (\<exists>e tr'. retry_loop N (Signal (Some a)) timeoutMs retryStatuses retries baseDelayMs attempt now tr
           = (Inl e, a, tr')))"
  using assms
proof (induction n arbitrary: attempt now tr)
  case 0
  then show ?case by (simp add: retry_loop.simps)
next
  case (Suc n)
  then have le: "attempt \<le> retries" by simp
  let ?s0 = "one_attempt N (Signal None) timeoutMs retryStatuses retries baseDelayMs attempt now tr"
  let ?s1 = "one_attempt N (Signal (Some a)) timeoutMs retryStatuses retries baseDelayMs attempt now tr"
  note cut = one_attempt_cut[OF Suc.prems(2), of N timeoutMs retryStatuses retries baseDelayMs attempt tr]
  have unf: "retry_loop N sg timeoutMs retryStatuses retries baseDelayMs attempt now tr =
     (case one_attempt N sg timeoutMs retryStatuses retries baseDelayMs attempt now tr of
           Finished r t tr' \<Rightarrow> (r, t, tr')
         | Continue t tr' \<Rightarrow>
             retry_loop N sg timeoutMs retryStatuses retries baseDelayMs (Suc attempt) t tr')" for sg
    by (subst retry_loop.simps) (simp add: le)
  show ?case
  proof (cases ?s0)
    case (Finished r T tr0)
    then show ?thesis using cut by (auto simp: unf)
  next
    case (Continue T' tr0)
    let ?T = "fst (snd (retry_loop N (Signal None) timeoutMs retryStatuses retries baseDelayMs (Suc attempt) T' tr0))"
    have mono: "T' \<le> ?T" by (rule retry_loop_time[OF refl])
    have sa: "Suc attempt \<le> retries"
    proof (rule ccontr)
      assume "\<not> Suc attempt \<le> retries"
      then have "attempt = retries" using le by simp
      then show False using Continue
        by (auto simp: one_attempt_def fetch_at_def catch_block_def sleep_at_def Let_def
            split: met.splits retry_after.splits if_splits)
    qed
    consider (before) "T' < a" | (at) "T' = a" | (after) "a < T'" by linarith
    then show ?thesis
    proof cases
      case before
      then have eq: "?s1 = ?s0" using cut Continue by simp
      have ih: "(?T < a \<longrightarrow> retry_loop N (Signal (Some a)) timeoutMs retryStatuses retries baseDelayMs (Suc attempt) T' tr0
           = retry_loop N (Signal None) timeoutMs retryStatuses retries baseDelayMs (Suc attempt) T' tr0)
        \<and> (a < ?T \<longrightarrow> (\<exists>e tr'. retry_loop N (Signal (Some a)) timeoutMs retryStatuses retries baseDelayMs (Suc attempt) T' tr0
           = (Inl e, a, tr')))"
        using Suc.prems before by (intro Suc.IH) auto
      show ?thesis using ih by (simp add: unf eq Continue)
    next
      case at
      have s1: "?s1 = ?s0 \<or> (\<exists>e tr'. ?s1 = Finished (Inl e) a tr')" using cut Continue at by auto
      have pre: "retry_loop N (Signal (Some a)) timeoutMs retryStatuses retries baseDelayMs (Suc attempt) a tr0
          = (Inl (AbortError ''This operation was aborted''), a, tr0)"
        by (subst retry_loop.simps) (simp add: sa one_attempt_preaborted)
      show ?thesis using s1 mono at pre by (auto simp: unf Continue)
    next
      case after
      then have s1: "\<exists>e tr'. ?s1 = Finished (Inl e) a tr'" using cut Continue by auto
      show ?thesis using s1 mono after by (auto simp: unf Continue)
    qed
  qed
qed


lemma one_attempt_events:
  "\<exists>new. trace_of (one_attempt N sig timeoutMs retryStatuses retries baseDelayMs attempt now tr) = tr @ new
      \<and> (\<forall>e\<in>set new. timely sig e)
      \<and> (\<forall>s ms e. Sleep s ms e \<in> set new \<longrightarrow> e < s + ms \<longrightarrow>
            one_attempt N sig timeoutMs retryStatuses retries baseDelayMs attempt now tr
              = Finished (Inl (AbortError ''Aborted'')) e (tr @ new))"
proof (cases sig)
  case NoSignal
  then show ?thesis
    by (auto simp: one_attempt_def fetch_at_def catch_block_def sleep_at_def Let_def
        split: met.splits retry_after.splits)
next
  case (Signal x)
  show ?thesis
  proof (cases x)
    case None
    then show ?thesis using Signal
      by (auto simp: one_attempt_def fetch_at_def catch_block_def sleep_at_def Let_def
          split: met.splits retry_after.splits)
  next
    case (Some a)
    then show ?thesis using Signal
      by (auto simp: one_attempt_def fetch_at_def catch_block_def sleep_at_def Let_def
          split: met.splits retry_after.splits)
  qed
qed

lemma retry_loop_events:
  "Suc retries - attempt = n \<Longrightarrow>
   \<exists>new. snd (snd (retry_loop N sig timeoutMs retryStatuses retries baseDelayMs attempt now tr)) = tr @ new
      \<and> (\<forall>e\<in>set new. timely sig e)
      \<and> (\<forall>s ms e. Sleep s ms e \<in> set new \<longrightarrow> e < s + ms \<longrightarrow>
            fst (retry_loop N sig timeoutMs retryStatuses retries baseDelayMs attempt now tr)
                = Inl (AbortError ''Aborted'')
            \<and> fst (snd (retry_loop N sig timeoutMs retryStatuses retries baseDelayMs attempt now tr)) = e)"
proof (induction n arbitrary: attempt now tr)
  case 0
  then show ?case by (simp add: retry_loop.simps)
next
  case (Suc n)
  then have le: "attempt \<le> retries" by simp
  let ?s = "one_attempt N sig timeoutMs retryStatuses retries baseDelayMs attempt now tr"
  obtain new1 where n1: "trace_of ?s = tr @ new1" "\<forall>e\<in>set new1. timely sig e"
    "\<forall>s ms e. Sleep s ms e \<in> set new1 \<longrightarrow> e < s + ms \<longrightarrow> ?s = Finished (Inl (AbortError ''Aborted'')) e (tr @ new1)"
    using one_attempt_events[of N sig timeoutMs retryStatuses retries baseDelayMs attempt now tr] by blast
  have unf: "retry_loop N sig timeoutMs retryStatuses retries baseDelayMs attempt now tr =
     (case ?s of Finished r t tr' \<Rightarrow> (r, t, tr')
         | Continue t tr' \<Rightarrow>
             retry_loop N sig timeoutMs retryStatuses retries baseDelayMs (Suc attempt) t tr')"
    by (subst retry_loop.simps) (simp add: le)
  show ?case
  proof (cases ?s)
    case (Finished r t tr')
    then show ?thesis using n1 by (auto simp: unf intro!: exI[of _ new1])
  next
    case (Continue t tr')
    then have tr': "tr' = tr @ new1" using n1(1) by simp
    have nocut: "\<forall>s ms e. Sleep s ms e \<in> set new1 \<longrightarrow> \<not> e < s + ms" using n1(3) Continue by auto
    let ?r = "retry_loop N sig timeoutMs retryStatuses retries baseDelayMs (Suc attempt) t tr'"
    obtain new2 where n2: "snd (snd ?r) = tr' @ new2" "\<forall>e\<in>set new2. timely sig e"
      "\<forall>s ms e. Sleep s ms e \<in> set new2 \<longrightarrow> e < s + ms \<longrightarrow> fst ?r = Inl (AbortError ''Aborted'') \<and> fst (snd ?r) = e"
    proof -
      have "Suc retries - Suc attempt = n" using Suc.prems by simp
      from Suc.IH[OF this, of t tr'] show ?thesis using that by blast
    qed
    show ?thesis
      apply (rule exI[of _ "new1 @ new2"])
      using n1(2) n2 nocut by (auto simp: unf Continue tr')
  qed
qed


lemma one_attempt_continue:
  assumes c: "one_attempt N sig timeoutMs retryStatuses retries baseDelayMs attempt now tr = Continue t tr'"
  shows "\<exists>s ms. tr' \<noteq> [] \<and> last tr' = Sleep s ms t \<and> t = s + ms \<and> \<not> aborted sig s"
proof (cases sig)
  case NoSignal
  then show ?thesis using c
    by (auto simp: one_attempt_def fetch_at_def catch_block_def sleep_at_def Let_def
        split: met.splits retry_after.splits if_splits)
next
  case (Signal x)
  show ?thesis
  proof (cases x)
    case None
    then show ?thesis using Signal c
      by (auto simp: one_attempt_def fetch_at_def catch_block_def sleep_at_def Let_def
          split: met.splits retry_after.splits if_splits)
  next
    case (Some a)
    then show ?thesis using Signal c
      by (auto simp: one_attempt_def fetch_at_def catch_block_def sleep_at_def Let_def
          split: met.splits retry_after.splits if_splits)
  qed
qed

lemma one_attempt_finished_at_abort:
  assumes "now < a"
    and "one_attempt N (Signal (Some a)) timeoutMs retryStatuses retries baseDelayMs attempt now tr
           = Finished (Inl e) a tr'"
  shows "tr' \<noteq> [] \<and> e = thrown_on_abort N a (last tr')"
proof (cases "outcome N attempt")
  case (Settles d res)
  then show ?thesis using assms
    by (auto simp: one_attempt_def fetch_at_def catch_block_def sleep_at_def Let_def min_def
      split: retry_after.splits if_splits)
next
  case (Fails d err)
  then show ?thesis using assms
    by (auto simp: one_attempt_def fetch_at_def catch_block_def sleep_at_def Let_def min_def
      split: retry_after.splits if_splits)
qed

lemma one_attempt_cut_error:
  assumes "now < a"
    and "a \<le> time_of (one_attempt N (Signal None) timeoutMs retryStatuses retries baseDelayMs attempt now tr)"
  shows "one_attempt N (Signal (Some a)) timeoutMs retryStatuses retries baseDelayMs attempt now tr
           = one_attempt N (Signal None) timeoutMs retryStatuses retries baseDelayMs attempt now tr
           \<and> time_of (one_attempt N (Signal None) timeoutMs retryStatuses retries baseDelayMs attempt now tr) = a
         \<or> (\<exists>tr'. tr' \<noteq> [] \<and>
               one_attempt N (Signal (Some a)) timeoutMs retryStatuses retries baseDelayMs attempt now tr
                 = Finished (Inl (thrown_on_abort N a (last tr'))) a tr')"
proof -
  let ?s0 = "one_attempt N (Signal None) timeoutMs retryStatuses retries baseDelayMs attempt now tr"
  let ?s1 = "one_attempt N (Signal (Some a)) timeoutMs retryStatuses retries baseDelayMs attempt now tr"
  from one_attempt_cut[OF assms(1), of N timeoutMs retryStatuses retries baseDelayMs attempt tr] assms(2)
  consider (same) "?s1 = ?s0 \<and> time_of ?s0 = a" | (cutoff) e tr' where "?s1 = Finished (Inl e) a tr'"
    by blast
  then show ?thesis
  proof cases
    case same
    then show ?thesis by simp
  next
    case cutoff
    from one_attempt_finished_at_abort[OF assms(1) cutoff]
    have "tr' \<noteq> []" "e = thrown_on_abort N a (last tr')" by simp_all
    then show ?thesis using cutoff by blast
  qed
qed

lemma retry_loop_cut_error:
  assumes "now < a"
  shows "Suc retries - attempt = n \<Longrightarrow>
    a < fst (snd (retry_loop N (Signal None) timeoutMs retryStatuses retries baseDelayMs attempt now tr))
    \<Longrightarrow> \<exists>tr'. tr' \<noteq> [] \<and>
          retry_loop N (Signal (Some a)) timeoutMs retryStatuses retries baseDelayMs attempt now tr
           = (Inl (thrown_on_abort N a (last tr')), a, tr')"
  using assms
proof (induction n arbitrary: attempt now tr)
  case 0
  then show ?case by (simp add: retry_loop.simps)
next
  case (Suc n)
  then have le: "attempt \<le> retries" by simp
  let ?s0 = "one_attempt N (Signal None) timeoutMs retryStatuses retries baseDelayMs attempt now tr"
  let ?s1 = "one_attempt N (Signal (Some a)) timeoutMs retryStatuses retries baseDelayMs attempt now tr"
  note cut = one_attempt_cut[OF Suc.prems(3), of N timeoutMs retryStatuses retries baseDelayMs attempt tr]
  note cute = one_attempt_cut_error[OF Suc.prems(3), of N timeoutMs retryStatuses retries baseDelayMs attempt tr]
  have unf: "retry_loop N sg timeoutMs retryStatuses retries baseDelayMs attempt now tr =
     (case one_attempt N sg timeoutMs retryStatuses retries baseDelayMs attempt now tr of
           Finished r t tr' \<Rightarrow> (r, t, tr')
         | Continue t tr' \<Rightarrow>
             retry_loop N sg timeoutMs retryStatuses retries baseDelayMs (Suc attempt) t tr')" for sg
    by (subst retry_loop.simps) (simp add: le)
  show ?case
  proof (cases ?s0)
    case (Finished r T tr0)
    then have "a < T" using Suc.prems(2) by (simp add: unf)
    then show ?thesis using cute Finished by (auto simp: unf)
  next
    case (Continue T' tr0)
    let ?T = "fst (snd (retry_loop N (Signal None) timeoutMs retryStatuses retries baseDelayMs (Suc attempt) T' tr0))"
    have aT: "a < ?T" using Suc.prems(2) by (simp add: unf Continue)
    have sa: "Suc attempt \<le> retries"
    proof (rule ccontr)
      assume "\<not> Suc attempt \<le> retries"
      then have "attempt = retries" using le by simp
      then show False using Continue
        by (auto simp: one_attempt_def fetch_at_def catch_block_def sleep_at_def Let_def
            split: met.splits retry_after.splits if_splits)
    qed
    consider (before) "T' < a" | (at) "T' = a" | (after) "a < T'" by linarith
    then show ?thesis
    proof cases
      case before
      then have eq: "?s1 = ?s0" using cut Continue by simp
      have "Suc retries - Suc attempt = n" using Suc.prems(1) by simp
      from Suc.IH[OF this aT before] show ?thesis by (simp add: unf eq Continue)
    next
      case at
      have "a \<le> time_of ?s0" using Continue at by simp
      from cute[OF this] consider (same) "?s1 = ?s0"
        | (cutoff) tr' where "tr' \<noteq> []" "?s1 = Finished (Inl (thrown_on_abort N a (last tr'))) a tr'"
        by blast
      then show ?thesis
      proof cases
        case same
        then have c1: "?s1 = Continue a tr0" using Continue at by simp
        from one_attempt_continue[OF c1] obtain s ms where
          l: "tr0 \<noteq> []" "last tr0 = Sleep s ms a" "a = s + ms" "\<not> aborted (Signal (Some a)) s"
          by blast
        have th: "thrown_on_abort N a (last tr0) = AbortError ''This operation was aborted''"
          using l by simp
        have pre: "retry_loop N (Signal (Some a)) timeoutMs retryStatuses retries baseDelayMs (Suc attempt) a tr0
          = (Inl (AbortError ''This operation was aborted''), a, tr0)"
          by (subst retry_loop.simps) (simp add: sa one_attempt_preaborted)
        show ?thesis
          by (rule exI[of _ tr0]) (simp add: unf c1 pre th l(1))
      next
        case cutoff
        then show ?thesis by (auto simp: unf)
      qed
    next
      case after
      then have "a \<le> time_of ?s0" using Continue by simp
      from cute[OF this] after Continue obtain tr' where
        "tr' \<noteq> []" "?s1 = Finished (Inl (thrown_on_abort N a (last tr'))) a tr'"
        by auto
      then show ?thesis by (auto simp: unf)
    qed
  qed
qed

lemma one_attempt_timeout:
  assumes "\<forall>t. \<not> aborted sig t" "timeoutMs < duration (outcome N attempt)"
  shows "one_attempt N sig timeoutMs retryStatuses retries baseDelayMs attempt now tr =
     (if attempt = retries
      then Finished (Inl (AbortError ''This operation was aborted'')) (now + timeoutMs)
             (tr @ [Request attempt now])
      else (let ms = min (backoff baseDelayMs attempt (jitter_catch N attempt)) 15000
            in Continue (now + timeoutMs + ms)
                 (tr @ [Request attempt now, Sleep (now + timeoutMs) ms (now + timeoutMs + ms)])))"
  using assms unfolding quiet_cases
  by (cases "outcome N attempt")
     (auto simp: one_attempt_def fetch_at_def catch_block_def sleep_at_def Let_def)

lemma retry_loop_timeout:
  assumes quiet: "\<forall>t. \<not> aborted sig t"
    and all: "\<forall>k\<le>retries. timeoutMs < duration (outcome N k)"
  shows "retries - attempt = n \<Longrightarrow> attempt \<le> retries \<Longrightarrow>
     \<exists>t tr'. retry_loop N sig timeoutMs retryStatuses retries baseDelayMs attempt now tr
                = (Inl (AbortError ''This operation was aborted''), t, tr')
        \<and> length (requests tr') = length (requests tr) + Suc (retries - attempt)"
proof (induction n arbitrary: attempt now tr)
  case 0
  then have eq: "attempt = retries" by simp
  have o: "timeoutMs < duration (outcome N retries)" using all by simp
  show ?case
    apply (subst retry_loop.simps)
    by (simp add: eq one_attempt_timeout[OF quiet o] requests_def)
next
  case (Suc n)
  then have lt: "attempt < retries" by simp
  have o: "timeoutMs < duration (outcome N attempt)" using all lt by simp
  obtain t1 tr1 where st: "one_attempt N sig timeoutMs retryStatuses retries baseDelayMs attempt now tr = Continue t1 tr1"
    and rq: "length (requests tr1) = Suc (length (requests tr))"
    using lt by (simp add: one_attempt_timeout[OF quiet o] Let_def requests_def)
  have "\<exists>t tr'. retry_loop N sig timeoutMs retryStatuses retries baseDelayMs (Suc attempt) t1 tr1
                = (Inl (AbortError ''This operation was aborted''), t, tr')
        \<and> length (requests tr') = length (requests tr1) + Suc (retries - Suc attempt)"
    using Suc.prems lt by (intro Suc.IH) auto
  then show ?case
    apply (subst retry_loop.simps)
    using lt by (auto simp: st rq)
qed

text \<open>
  C7 (as amended). Cancellation: with the caller's signal aborted at time \<open>a\<close>,
  \<open>fetchWithRetry\<close> issues every request before \<open>a\<close>, and a backoff sleep that the abort
  reaches ends at once, rejected with \<open>AbortError 'Aborted'\<close>, which the call then
  throws. A call entered with the signal already aborted throws
  \<open>AbortError 'This operation was aborted'\<close> at once, with no request. If the same call
  without the abort would still be running after \<open>a\<close>, the call ends at \<open>a\<close>, the signal
  reads aborted, and the error thrown is \<open>thrown_on_abort\<close> of the last event:
  \<open>AbortError 'Aborted'\<close> for an interrupted sleep, and
  \<open>AbortError 'This operation was aborted'\<close> for an interrupted request. An abort
  after the end of the call changes nothing. And a call that is never cancelled and
  whose attempts all run into the per-attempt timeout throws, after \<open>retries + 1\<close>
  requests, that same \<open>AbortError 'This operation was aborted'\<close>, with the signal not
  aborted: the error does not tell the two apart, the signal's flag does.
\<close>

theorem cancellation_prompt:
  "let run = fetchWithRetry N (Signal (Some a)) timeoutMs retryStatuses retries baseDelayMs now;
       quiet = fetchWithRetry N (Signal None) timeoutMs retryStatuses retries baseDelayMs now
   in (\<forall>k s. Request k s \<in> set (snd (snd run)) \<longrightarrow> s < a)
    \<and> (\<forall>s ms e. Sleep s ms e \<in> set (snd (snd run)) \<longrightarrow>
          e = (if a \<le> s then s else min a (s + ms))
          \<and> (e < s + ms \<longrightarrow> fst run = Inl (AbortError ''Aborted'') \<and> fst (snd run) = e))
    \<and> (a \<le> now \<longrightarrow> run = (Inl (AbortError ''This operation was aborted''), now, []))
    \<and> (now < a \<and> a < fst (snd quiet) \<longrightarrow>
          fst (snd run) = a \<and> aborted (Signal (Some a)) (fst (snd run))
          \<and> snd (snd run) \<noteq> []
          \<and> fst run = Inl (thrown_on_abort N a (last (snd (snd run)))))
    \<and> (fst (snd quiet) < a \<longrightarrow> run = quiet)
    \<and> ((\<forall>k\<le>retries. timeoutMs < duration (outcome N k)) \<longrightarrow>
          (\<exists>t tr. quiet = (Inl (AbortError ''This operation was aborted''), t, tr)
             \<and> length (requests tr) = retries + 1
             \<and> \<not> aborted (Signal None) t))"
proof -
  let ?run = "fetchWithRetry N (Signal (Some a)) timeoutMs retryStatuses retries baseDelayMs now"
  let ?quiet = "fetchWithRetry N (Signal None) timeoutMs retryStatuses retries baseDelayMs now"
  obtain new where ev: "snd (snd ?run) = [] @ new" "\<forall>e\<in>set new. timely (Signal (Some a)) e"
      "\<forall>s ms e. Sleep s ms e \<in> set new \<longrightarrow> e < s + ms \<longrightarrow>
          fst ?run = Inl (AbortError ''Aborted'') \<and> fst (snd ?run) = e"
    unfolding fetchWithRetry_def
    using retry_loop_events[OF refl, where retries = retries and attempt = 0 and N = N
        and sig = "Signal (Some a)" and timeoutMs = timeoutMs and retryStatuses = retryStatuses
        and baseDelayMs = baseDelayMs and now = now and tr = "[]"]
    by blast
  have 1: "\<forall>k s. Request k s \<in> set (snd (snd ?run)) \<longrightarrow> s < a"
    using ev(1,2) by fastforce
  have 2: "\<forall>s ms e. Sleep s ms e \<in> set (snd (snd ?run)) \<longrightarrow>
          e = (if a \<le> s then s else min a (s + ms))
          \<and> (e < s + ms \<longrightarrow> fst ?run = Inl (AbortError ''Aborted'') \<and> fst (snd ?run) = e)"
  proof (intro allI impI)
    fix s ms e assume m: "Sleep s ms e \<in> set (snd (snd ?run))"
    then have "timely (Signal (Some a)) (Sleep s ms e)" using ev(1,2) by auto
    then have "e = (if a \<le> s then s else min a (s + ms))"
      by (auto simp: sleep_at_def min_def)
    then show "e = (if a \<le> s then s else min a (s + ms))
          \<and> (e < s + ms \<longrightarrow> fst ?run = Inl (AbortError ''Aborted'') \<and> fst (snd ?run) = e)"
      using ev(1,3) m by auto
  qed
  have 3: "a \<le> now \<longrightarrow> ?run = (Inl (AbortError ''This operation was aborted''), now, [])"
    by (simp add: fetchWithRetry_def retry_loop.simps[of _ _ _ _ _ _ 0] one_attempt_preaborted)
  have 4: "now < a \<and> a < fst (snd ?quiet) \<longrightarrow>
          fst (snd ?run) = a \<and> aborted (Signal (Some a)) (fst (snd ?run))
          \<and> snd (snd ?run) \<noteq> []
          \<and> fst ?run = Inl (thrown_on_abort N a (last (snd (snd ?run))))"
  proof
    assume h: "now < a \<and> a < fst (snd ?quiet)"
    then have "a < fst (snd (retry_loop N (Signal None) timeoutMs retryStatuses retries baseDelayMs 0 now []))"
      by (simp add: fetchWithRetry_def)
    from retry_loop_cut_error[OF conjunct1[OF h] refl this]
    obtain tr' where "tr' \<noteq> []" "?run = (Inl (thrown_on_abort N a (last tr')), a, tr')"
      by (auto simp: fetchWithRetry_def)
    then show "fst (snd ?run) = a \<and> aborted (Signal (Some a)) (fst (snd ?run))
          \<and> snd (snd ?run) \<noteq> []
          \<and> fst ?run = Inl (thrown_on_abort N a (last (snd (snd ?run))))"
      by simp
  qed
  have 5: "fst (snd ?quiet) < a \<longrightarrow> ?run = ?quiet"
  proof
    assume q: "fst (snd ?quiet) < a"
    have "now \<le> fst (snd ?quiet)"
      unfolding fetchWithRetry_def by (rule retry_loop_time[OF refl])
    then have "now < a" using q by simp
    from retry_loop_cut[OF this refl, where retries = retries and attempt = 0 and N = N
        and timeoutMs = timeoutMs and retryStatuses = retryStatuses
        and baseDelayMs = baseDelayMs and tr = "[]"] q
    show "?run = ?quiet" by (simp add: fetchWithRetry_def)
  qed
  have 6: "(\<forall>k\<le>retries. timeoutMs < duration (outcome N k)) \<longrightarrow>
          (\<exists>t tr. ?quiet = (Inl (AbortError ''This operation was aborted''), t, tr)
             \<and> length (requests tr) = retries + 1
             \<and> \<not> aborted (Signal None) t)"
  proof
    assume all: "\<forall>k\<le>retries. timeoutMs < duration (outcome N k)"
    have q: "\<forall>t. \<not> aborted (Signal None) t" by simp
    from retry_loop_timeout[OF q all refl, of 0 retryStatuses baseDelayMs now "[]"]
    show "\<exists>t tr. ?quiet = (Inl (AbortError ''This operation was aborted''), t, tr)
             \<and> length (requests tr) = retries + 1
             \<and> \<not> aborted (Signal None) t"
      by (auto simp: fetchWithRetry_def requests_def)
  qed
  from 1 2 3 4 5 6 show ?thesis by (simp only: Let_def)
qed

text \<open>Unfolding the definitions on the scripted networks.\<close>

lemmas transport_run = fetchWithRetry_def retry_loop.simps one_attempt_def catch_block_def
  fetch_at_def sleep_at_def backoff_def ok_def default_retryStatuses_def default_retries_def
  default_baseDelayMs_def Let_def

lemma cancelled_503:
  "fetchWithRetry always_503 (Signal (Some 500)) 60000 default_retryStatuses default_retries
      default_baseDelayMs 0
    = (Inl (AbortError ''Aborted''), 500, [Request 0 0, Sleep 10 1007 500])"
  by (simp add: transport_run always_503_def)

lemma quiet_503:
  "fetchWithRetry always_503 (Signal None) 60000 default_retryStatuses default_retries
      default_baseDelayMs 0
    = (Inr \<lparr> status = 503, retryAfter = Absent, statusText = ''Service Unavailable'', body = [] \<rparr>,
       15078,
       [Request 0 0, Sleep 10 1007 1017, Request 1 1017, Sleep 1027 2007 3034,
        Request 2 3034, Sleep 3044 4007 7051, Request 3 7051,
        Sleep 7061 8007 15068, Request 4 15068])"
  by (simp add: transport_run always_503_def)

lemma cancelled_slow:
  "fetchWithRetry always_slow (Signal (Some 61500)) 60000 default_retryStatuses default_retries
      default_baseDelayMs 0
    = (Inl (AbortError ''This operation was aborted''), 61500,
       [Request 0 0, Sleep 60000 1000 61000, Request 1 61000])"
  by (simp add: transport_run always_slow_def)

lemma quiet_slow:
  "fetchWithRetry always_slow (Signal None) 60000 default_retryStatuses default_retries
      default_baseDelayMs 0
    = (Inl (AbortError ''This operation was aborted''), 315000,
       [Request 0 0, Sleep 60000 1000 61000, Request 1 61000, Sleep 121000 2000 123000,
        Request 2 123000, Sleep 183000 4000 187000, Request 3 187000,
        Sleep 247000 8000 255000, Request 4 255000])"
  by (simp add: transport_run always_slow_def)

text \<open>The witness: on the network that always answers 503, an abort at 500 ms cuts the
  first backoff sleep and an abort at 20 s comes after the end; on the network that
  never answers in time, an abort at 61.5 s cuts the second request, and the call that
  is not cancelled exhausts its five attempts; both end in the same error.\<close>

theorem cancellation_prompt_witness:
  "Request 0 0 \<in> set (snd (snd (fetchWithRetry always_503 (Signal (Some 500)) 60000
        default_retryStatuses default_retries default_baseDelayMs 0)))
   \<and> Sleep 10 1007 500 \<in> set (snd (snd (fetchWithRetry always_503 (Signal (Some 500)) 60000
        default_retryStatuses default_retries default_baseDelayMs 0)))
   \<and> (500 :: nat) < 10 + 1007
   \<and> (0 :: nat) < 500
   \<and> 500 < fst (snd (fetchWithRetry always_503 (Signal None) 60000
        default_retryStatuses default_retries default_baseDelayMs 0))
   \<and> fetchWithRetry always_503 (Signal (Some 500)) 60000 default_retryStatuses default_retries
        default_baseDelayMs 0
       = (Inl (AbortError ''Aborted''), 500, [Request 0 0, Sleep 10 1007 500])
   \<and> fst (snd (fetchWithRetry always_503 (Signal None) 60000
        default_retryStatuses default_retries default_baseDelayMs 0)) < 20000
   \<and> fetchWithRetry always_503 (Signal (Some 20000)) 60000 default_retryStatuses default_retries
        default_baseDelayMs 0
       = fetchWithRetry always_503 (Signal None) 60000 default_retryStatuses default_retries
        default_baseDelayMs 0
   \<and> (0 :: nat) < 61500
   \<and> 61500 < fst (snd (fetchWithRetry always_slow (Signal None) 60000
        default_retryStatuses default_retries default_baseDelayMs 0))
   \<and> fetchWithRetry always_slow (Signal (Some 61500)) 60000 default_retryStatuses default_retries
        default_baseDelayMs 0
       = (Inl (AbortError ''This operation was aborted''), 61500,
          [Request 0 0, Sleep 60000 1000 61000, Request 1 61000])
   \<and> aborted (Signal (Some 61500)) 61500
   \<and> (\<forall>k. 60000 < duration (outcome always_slow k))
   \<and> (\<exists>t tr. fetchWithRetry always_slow (Signal None) 60000 default_retryStatuses default_retries
        default_baseDelayMs 0 = (Inl (AbortError ''This operation was aborted''), t, tr)
          \<and> length (requests tr) = 5 \<and> \<not> aborted (Signal None) t)
   \<and> fetchWithRetry always_slow (Signal (Some 400000)) 60000 default_retryStatuses default_retries
        default_baseDelayMs 400001
       = (Inl (AbortError ''This operation was aborted''), 400001, [])"
proof -
  have slow: "\<forall>k. 60000 < duration (outcome always_slow k)" by (simp add: always_slow_def)
  show ?thesis
    using cancellation_prompt [where N = always_503 and a = 500 and timeoutMs = 60000
        and retryStatuses = default_retryStatuses and retries = default_retries
        and baseDelayMs = default_baseDelayMs and now = 0]
      cancellation_prompt [where N = always_503 and a = 20000 and timeoutMs = 60000
        and retryStatuses = default_retryStatuses and retries = default_retries
        and baseDelayMs = default_baseDelayMs and now = 0]
      cancellation_prompt [where N = always_slow and a = 61500 and timeoutMs = 60000
        and retryStatuses = default_retryStatuses and retries = default_retries
        and baseDelayMs = default_baseDelayMs and now = 0]
      cancellation_prompt [where N = always_slow and a = 400000 and timeoutMs = 60000
        and retryStatuses = default_retryStatuses and retries = default_retries
        and baseDelayMs = default_baseDelayMs and now = 400001]
      slow
    by (simp add: cancelled_503 quiet_503 cancelled_slow quiet_slow Let_def requests_def)
qed

text \<open>
  The claim C7 as stated fails in its last part: a call whose five attempts all run
  into the per-attempt timeout, with the signal never aborted, throws the same
  \<open>AbortError\<close> as a call cancelled during its first request.
\<close>

theorem timeout_exhaustion_throws_abort_error:
  "fetchWithRetry always_slow (Signal None) 60000 default_retryStatuses default_retries
      default_baseDelayMs 0
    = (Inl (AbortError ''This operation was aborted''), 315000,
       [Request 0 0, Sleep 60000 1000 61000, Request 1 61000, Sleep 121000 2000 123000,
        Request 2 123000, Sleep 183000 4000 187000, Request 3 187000,
        Sleep 247000 8000 255000, Request 4 255000])
   \<and> fetchWithRetry always_slow (Signal (Some 5)) 60000 default_retryStatuses default_retries
      default_baseDelayMs 0
    = (Inl (AbortError ''This operation was aborted''), 5, [Request 0 0])"
  by (simp add: transport_run always_slow_def)

subsection \<open>The empty file\<close>

lemma add_loop_skips_empty:
  "add_loop init folderId userId now files acc s
     = add_loop init folderId userId now (filter (\<lambda>f. f_bytes f \<noteq> []) files) acc s"
  by (induction files arbitrary: acc s) (simp_all add: Let_def split: sum.splits)

text \<open>
  C9 (as amended). The empty input: \<open>uploadFile\<close> does not reject an empty buffer. On the
  storing backend it sends one document, the encryption of the empty buffer, and returns
  one descriptor and \<open>totalChunks = 1\<close>. It is \<open>addUploads\<close> of the client queue that
  drops empty files: they are skipped as if they were not in the list, so that no session
  is opened and no upload record is made for them, and a list of one empty file leaves
  the queue as it was, without an error.
\<close>

theorem empty_file_skipped:
  "uploadFile L telegram_store fid [] name w =
     (Inr \<lparr> telegramStorageId = fid,
            chunks = [\<lparr> chunkId = fid @ ''_0'', chunkIndex = 0, messageId = int (next_id w),
                        encryptedHash = sha256_hex L (encryptChunk L [] (generateEncryptionKey L fid 0)),
                        fileId = Some (file_id_of (next_id w)) \<rparr>],
            totalChunks = 1 \<rparr>,
      w\<lparr> next_id := Suc (next_id w),
         filed := (file_id_of (next_id w), file_path_of (next_id w),
                   encryptChunk L [] (generateEncryptionKey L fid 0)) # filed w \<rparr>)
   \<and> addUploads init files folderId userId now s
       = addUploads init (filter (\<lambda>f. f_bytes f \<noteq> []) files) folderId userId now s
   \<and> addUploads init [\<lparr> f_name = fname, f_type = ftype, f_bytes = [] \<rparr>] folderId (Some (c # uid)) now s
       = (Inr (), s)"
proof -
  have 1: "uploadFile L telegram_store fid [] name w =
     (Inr \<lparr> telegramStorageId = fid,
            chunks = [\<lparr> chunkId = fid @ ''_0'', chunkIndex = 0, messageId = int (next_id w),
                        encryptedHash = sha256_hex L (encryptChunk L [] (generateEncryptionKey L fid 0)),
                        fileId = Some (file_id_of (next_id w)) \<rparr>],
            totalChunks = 1 \<rparr>,
      w\<lparr> next_id := Suc (next_id w),
         filed := (file_id_of (next_id w), file_path_of (next_id w),
                   encryptChunk L [] (generateEncryptionKey L fid 0)) # filed w \<rparr>)"
    by (simp add: uploadFile_def uploadChunk_def telegram_store_def show_int_def decimal.simps Let_def)
  have 2: "addUploads init files folderId userId now s
       = addUploads init (filter (\<lambda>f. f_bytes f \<noteq> []) files) folderId userId now s"
    using add_loop_skips_empty[of init folderId _ now files "[]" s]
    by (simp add: addUploads_def split: option.splits)
  have 3: "addUploads init [\<lparr> f_name = fname, f_type = ftype, f_bytes = [] \<rparr>] folderId (Some (c # uid)) now s
       = (Inr (), s)"
    by (simp add: addUploads_def)
  from 1 2 3 show ?thesis by simp
qed

text \<open>
  The claim C9 as stated fails for \<open>uploadFile\<close>: an empty buffer takes the single-chunk
  branch, one document (the padding alone) is sent, and a descriptor set with
  \<open>totalChunks = 1\<close> comes back.
\<close>

theorem empty_buffer_uploaded:
  "uploadFile small_crypto telegram_store ''uuid'' [] ''empty.bin'' \<lparr>next_id = 0, filed = []\<rparr>
  = (Inr \<lparr> telegramStorageId = ''uuid'',
           chunks = [\<lparr> chunkId = ''uuid_0'', chunkIndex = 0, messageId = 0, encryptedHash = ''01'', fileId = Some ''doc'' \<rparr>],
           totalChunks = 1 \<rparr>,
     \<lparr> next_id = 1, filed = [(''doc'', ''documents/doc'', [1])] \<rparr>)"
  by (simp add: uploadFile_def uploadChunk_def small_crypto_def telegram_store_def encryptChunk_def
      show_int_def decimal.simps hex_byte_def file_id_of_def file_path_of_def CHUNK_SIZE_def)

subsection \<open>Resuming a paused upload\<close>






end
